theory Spec2Isabelle
  imports Complex_Main
begin

section \<open>Python strings\<close>

text \<open>
  A Python \<open>str\<close> is a sequence of Unicode code points; a code point is a natural
  number. String literals of the source are written \<open>lit ''...''\<close>.
  Code points used below: newline 10, space 32, \<open>%\<close> 37, \<open>+\<close> 43, \<open>-\<close> 45,
  \<open>.\<close> 46, \<open>:\<close> 58, \<open>@\<close> 64, \<open>_\<close> 95, \<open>|\<close> 124.
\<close>

type_synonym pystr = "nat list"

definition lit :: "string \<Rightarrow> pystr" where
  "lit s = map of_char s"

definition is_upper :: "nat \<Rightarrow> bool" where
  "is_upper c = (65 \<le> c \<and> c \<le> 90)"

definition is_lower :: "nat \<Rightarrow> bool" where
  "is_lower c = (97 \<le> c \<and> c \<le> 122)"

definition is_digit :: "nat \<Rightarrow> bool" where
  "is_digit c = (48 \<le> c \<and> c \<le> 57)"

text \<open>
  \<open>str.lower()\<close>. Every call of it in the program is on a string that
  \<open>validate_email\<close> has accepted; such a string is ASCII (lemma
  \<open>re_match_email_ascii\<close>), where \<open>lower\<close> maps \<open>A-Z\<close> to \<open>a-z\<close> and
  leaves every other character as it is.
\<close>

definition lower_char :: "nat \<Rightarrow> nat" where
  "lower_char c = (if is_upper c then c + 32 else c)"

definition lower :: "pystr \<Rightarrow> pystr" where
  "lower s = map lower_char s"

text \<open>
  The characters \<open>str.strip()\<close> removes: those for which \<open>str.isspace()\<close> holds
  (tab to carriage return, the separators 28-31, space, NEL, no-break space, and the
  Unicode space separators).
\<close>

definition is_space :: "nat \<Rightarrow> bool" where
  "is_space c = ((9 \<le> c \<and> c \<le> 13) \<or> (28 \<le> c \<and> c \<le> 32) \<or> c = 133 \<or> c = 160
      \<or> c = 5760 \<or> (8192 \<le> c \<and> c \<le> 8202) \<or> c = 8232 \<or> c = 8233 \<or> c = 8239
      \<or> c = 8287 \<or> c = 12288)"

definition strip :: "pystr \<Rightarrow> pystr" where
  "strip s = rev (dropWhile is_space (rev (dropWhile is_space s)))"

definition startswith :: "pystr \<Rightarrow> pystr \<Rightarrow> bool" where
  "startswith s p = (take (length p) s = p)"

text \<open>\<open>s.split(d)\<close> for a one-character separator: never an empty list.\<close>

fun split :: "nat \<Rightarrow> pystr \<Rightarrow> pystr list" where
  "split d [] = [[]]"
| "split d (c # cs) =
     (if c = d then [] # split d cs
      else (let r = split d cs in (c # hd r) # tl r))"

text \<open>\<open>d.join(ls)\<close> for a one-character separator.\<close>

fun join :: "nat \<Rightarrow> pystr list \<Rightarrow> pystr" where
  "join d [] = []"
| "join d [l] = l"
| "join d (l # m # ls) = l @ d # join d (m # ls)"

text \<open>\<open>s.split(d, 1)\<close>: split at the first separator only.\<close>

definition split1 :: "nat \<Rightarrow> pystr \<Rightarrow> pystr list" where
  "split1 d s =
     (if d \<in> set s then [takeWhile (\<lambda>c. c \<noteq> d) s, tl (dropWhile (\<lambda>c. c \<noteq> d) s)]
      else [s])"

section \<open>Exceptions\<close>

datatype exn_class =
    AttributeError | TypeError | KeyError | IndexError | ValueError
  | SMTPAuthenticationError | SMTPException | ConnectionError | OtherError
  | RetryError

text \<open>An exception: its class and \<open>str(e)\<close>.\<close>

datatype exn = Exn (exn_cls: exn_class) (exn_str: pystr)

text \<open>\<open>xs[1]\<close>.\<close>

definition index1 :: "'a list \<Rightarrow> exn + 'a" where
  "index1 xs = (if 1 < length xs then Inr (xs ! 1) else Inl (Exn IndexError []))"

section \<open>The regular expressions of the source\<close>

text \<open>
  The fragment of Python's \<open>re\<close> the two patterns use, as a sequence of atoms:
  \<open>^\<close>, \<open>$\<close>, \<open>\b\<close>, one literal character, and a greedy repetition \<open>[class]{n,}\<close>
  (\<open>+\<close> is \<open>{1,}\<close>).
\<close>

datatype atom = Bol | Eol | WordB | Chr nat | AtLeast nat "nat \<Rightarrow> bool"

text \<open>
  \<open>\w\<close> on a \<open>str\<close> pattern: ASCII letters, digits and the underscore, and beyond
  ASCII whatever \<open>str.isalnum()\<close> accepts. That Unicode table is the parameter \<open>u\<close>.
\<close>

definition is_word :: "(nat \<Rightarrow> bool) \<Rightarrow> nat \<Rightarrow> bool" where
  "is_word u c = (is_lower c \<or> is_upper c \<or> is_digit c \<or> c = 95 \<or> (128 \<le> c \<and> u c))"

definition word_before :: "(nat \<Rightarrow> bool) \<Rightarrow> nat option \<Rightarrow> bool" where
  "word_before u p = (case p of None \<Rightarrow> False | Some c \<Rightarrow> is_word u c)"

definition word_after :: "(nat \<Rightarrow> bool) \<Rightarrow> pystr \<Rightarrow> bool" where
  "word_after u s = (case s of [] \<Rightarrow> False | c # cs \<Rightarrow> is_word u c)"

text \<open>
  The backtracking matcher at one position: \<open>p\<close> is the character before the
  position (\<open>None\<close> at the start of the string), \<open>s\<close> the rest of the string. The
  result is the length of the match the engine finds first. A greedy repetition
  first tries to take one more character and, when the rest of the pattern fails
  after that, stops where it is (if it has its minimum). \<open>$\<close> matches at the end of
  the string and before a newline that ends the string.
\<close>

fun re_at :: "(nat \<Rightarrow> bool) \<Rightarrow> atom list \<Rightarrow> nat option \<Rightarrow> pystr \<Rightarrow> nat option" where
  "re_at u [] p s = Some 0"
| "re_at u (Bol # as) p s = (if p = None then re_at u as p s else None)"
| "re_at u (Eol # as) p s = (if s = [] \<or> s = [10] then re_at u as p s else None)"
| "re_at u (WordB # as) p s =
     (if word_before u p \<noteq> word_after u s then re_at u as p s else None)"
| "re_at u (Chr c # as) p s =
     (case s of [] \<Rightarrow> None
      | x # xs \<Rightarrow> if x = c then map_option Suc (re_at u as (Some x) xs) else None)"
| "re_at u (AtLeast n P # as) p s =
     (case (case s of [] \<Rightarrow> None
            | x # xs \<Rightarrow>
                if P x then map_option Suc (re_at u (AtLeast (n - 1) P # as) (Some x) xs)
                else None) of
        Some r \<Rightarrow> Some r
      | None \<Rightarrow> if n = 0 then re_at u as p s else None)"

text \<open>\<open>re.search\<close>: the first position where the pattern matches; the result is \<open>group(0)\<close>.\<close>

fun re_search :: "(nat \<Rightarrow> bool) \<Rightarrow> atom list \<Rightarrow> nat option \<Rightarrow> pystr \<Rightarrow> pystr option" where
  "re_search u as p s =
     (case re_at u as p s of
        Some n \<Rightarrow> Some (take n s)
      | None \<Rightarrow> (case s of [] \<Rightarrow> None | x # xs \<Rightarrow> re_search u as (Some x) xs))"

text \<open>The character classes \<open>[a-zA-Z0-9._%+-]\<close>, \<open>[a-zA-Z0-9.-]\<close>, \<open>[a-zA-Z]\<close> and \<open>[A-Z|a-z]\<close>.\<close>

definition cls_local :: "nat \<Rightarrow> bool" where
  "cls_local c = (is_lower c \<or> is_upper c \<or> is_digit c \<or> c = 46 \<or> c = 95 \<or> c = 37
      \<or> c = 43 \<or> c = 45)"

definition cls_domain :: "nat \<Rightarrow> bool" where
  "cls_domain c = (is_lower c \<or> is_upper c \<or> is_digit c \<or> c = 46 \<or> c = 45)"

definition cls_alpha :: "nat \<Rightarrow> bool" where
  "cls_alpha c = (is_lower c \<or> is_upper c)"

definition cls_alpha_bar :: "nat \<Rightarrow> bool" where
  "cls_alpha_bar c = (is_upper c \<or> c = 124 \<or> is_lower c)"

text \<open>\<open>^[a-zA-Z0-9._%+-]+@[a-zA-Z0-9.-]+\.[a-zA-Z]{2,}$\<close>\<close>

definition validate_pattern :: "atom list" where
  "validate_pattern =
     [Bol, AtLeast 1 cls_local, Chr 64, AtLeast 1 cls_domain, Chr 46, AtLeast 2 cls_alpha, Eol]"

text \<open>\<open>\b[A-Za-z0-9._%+-]+@[A-Za-z0-9.-]+\.[A-Z|a-z]{2,}\b\<close>\<close>

definition email_pattern :: "atom list" where
  "email_pattern =
     [WordB, AtLeast 1 cls_local, Chr 64, AtLeast 1 cls_domain, Chr 46,
      AtLeast 2 cls_alpha_bar, WordB]"

text \<open>
  \<open>re.match(pattern, email) is not None\<close> for the pattern of \<open>validate_email\<close>. The
  pattern has no \<open>\b\<close>, so the Unicode table plays no part.
\<close>

definition re_match_email :: "pystr \<Rightarrow> bool" where
  "re_match_email s = (re_at (\<lambda>c. False) validate_pattern None s \<noteq> None)"

section \<open>Parsed JSON\<close>

text \<open>
  What \<open>response.json()\<close> returns: \<open>None\<close>, a bool, an int, a float, a str, a list
  or a dict with string keys. A dict is an association list read with \<open>map_of\<close>.
  The floats \<open>NaN\<close> and the infinities, which \<open>json.loads\<close> accepts beyond the JSON
  standard, are not represented. The message of an error the interpreter raises
  itself is not modelled (it only reaches the operational log): it is left empty.
\<close>

datatype json =
    JNull | JBool bool | JInt int | JFloat rat | JStr pystr
  | JArr "json list" | JObj "(pystr \<times> json) list"

text \<open>Python's truth value of an object.\<close>

fun truthy :: "json \<Rightarrow> bool" where
  "truthy JNull = False"
| "truthy (JBool b) = b"
| "truthy (JInt i) = (i \<noteq> 0)"
| "truthy (JFloat r) = (r \<noteq> 0)"
| "truthy (JStr s) = (s \<noteq> [])"
| "truthy (JArr xs) = (xs \<noteq> [])"
| "truthy (JObj kvs) = (kvs \<noteq> [])"

text \<open>\<open>d.get(k, default)\<close>: only a dict has the method.\<close>

fun dict_get :: "json \<Rightarrow> pystr \<Rightarrow> json \<Rightarrow> exn + json" where
  "dict_get (JObj kvs) k d = Inr (case map_of kvs k of Some v \<Rightarrow> v | None \<Rightarrow> d)"
| "dict_get _ k d = Inl (Exn AttributeError [])"

text \<open>
  \<open>for entry in x\<close>: the elements of a list, the characters of a str, the keys of a
  dict; anything else is not iterable.
\<close>

fun py_iter :: "json \<Rightarrow> exn + json list" where
  "py_iter (JArr xs) = Inr xs"
| "py_iter (JStr s) = Inr (map (\<lambda>c. JStr [c]) s)"
| "py_iter (JObj kvs) = Inr (map JStr (remdups (map fst kvs)))"
| "py_iter _ = Inl (Exn TypeError [])"

text \<open>\<open>x.lower()\<close> on an object: only a str has the method.\<close>

fun py_lower :: "json \<Rightarrow> exn + pystr" where
  "py_lower (JStr s) = Inr (lower s)"
| "py_lower _ = Inl (Exn AttributeError [])"

section \<open>The email extractor\<close>

text \<open>
  \<open>validate_email(email)\<close>: a falsy argument (\<open>None\<close>, the empty string, ...) is
  rejected before the pattern is tried; \<open>re.match\<close> raises \<open>TypeError\<close> on an argument
  that is not a str.
\<close>

definition validate_email :: "json \<Rightarrow> exn + bool" where
  "validate_email email =
     (if \<not> truthy email then Inr False
      else (case email of
              JStr s \<Rightarrow> Inr (re_match_email s)
            | _ \<Rightarrow> Inl (Exn TypeError [])))"

text \<open>
  The test \<open>email and email != "None" and validate_email(email)\<close> on the text after
  \<open>Email:\<close>, shared by the two functions that read the model's response.
\<close>

definition email_field_ok :: "pystr \<Rightarrow> exn + bool" where
  "email_field_ok email =
     (if email \<noteq> [] \<and> email \<noteq> lit ''None'' then validate_email (JStr email) else Inr False)"

text \<open>The loop of \<open>extract_email_from_gemini_response\<close> over the lines of the response.\<close>

fun first_email_line :: "pystr list \<Rightarrow> exn + pystr option" where
  "first_email_line [] = Inr None"
| "first_email_line (line # rest) =
     (if startswith line (lit ''Email:'') then
        (case index1 (split1 58 line) of
           Inl e \<Rightarrow> Inl e
         | Inr part \<Rightarrow>
             (let email = strip part in
              (case email_field_ok email of
                 Inl e \<Rightarrow> Inl e
               | Inr ok \<Rightarrow> if ok then Inr (Some (lower email)) else first_email_line rest)))
      else first_email_line rest)"

definition extract_email_from_gemini_response :: "pystr \<Rightarrow> pystr option" where
  "extract_email_from_gemini_response gemini_response =
     (if gemini_response = [] then None
      else (case first_email_line (split 10 gemini_response) of
              Inl e \<Rightarrow> None
            | Inr r \<Rightarrow> r))"

text \<open>The body of the loop of \<open>lowercase_gemini_response\<close>: the new \<open>lines[i]\<close>.\<close>

definition lowercase_line :: "pystr \<Rightarrow> exn + pystr" where
  "lowercase_line line =
     (if startswith line (lit ''Email:'') then
        (case index1 (split1 58 line) of
           Inl e \<Rightarrow> Inl e
         | Inr part \<Rightarrow>
             (let email = strip part in
              (case email_field_ok email of
                 Inl e \<Rightarrow> Inl e
               | Inr ok \<Rightarrow> Inr (if ok then lit ''Email: '' @ lower email else line))))
      else Inr line)"

fun lowercase_lines :: "pystr list \<Rightarrow> exn + pystr list" where
  "lowercase_lines [] = Inr []"
| "lowercase_lines (line # rest) =
     (case lowercase_line line of
        Inl e \<Rightarrow> Inl e
      | Inr l \<Rightarrow> (case lowercase_lines rest of Inl e \<Rightarrow> Inl e | Inr ls \<Rightarrow> Inr (l # ls)))"

definition lowercase_gemini_response :: "pystr \<Rightarrow> pystr" where
  "lowercase_gemini_response gemini_response =
     (if gemini_response = [] then gemini_response
      else (case lowercase_lines (split 10 gemini_response) of
              Inl e \<Rightarrow> gemini_response
            | Inr ls \<Rightarrow> join 10 ls))"

text \<open>\<open>email_pattern.search(message)\<close>: \<open>TypeError\<close> on a message that is not a str.\<close>

definition pattern_search :: "(nat \<Rightarrow> bool) \<Rightarrow> json \<Rightarrow> exn + pystr option" where
  "pattern_search u message =
     (case message of
        JStr s \<Rightarrow> Inr (re_search u email_pattern None s)
      | _ \<Rightarrow> Inl (Exn TypeError []))"

text \<open>The loop of \<open>extract_customer_email\<close> over the transcript entries.\<close>

fun scan_transcript :: "(nat \<Rightarrow> bool) \<Rightarrow> json list \<Rightarrow> exn + pystr option" where
  "scan_transcript u [] = Inr None"
| "scan_transcript u (entry # rest) =
     (case dict_get entry (lit ''message'') (JStr []) of
        Inl e \<Rightarrow> Inl e
      | Inr message \<Rightarrow>
          (case pattern_search u message of
             Inl e \<Rightarrow> Inl e
           | Inr None \<Rightarrow> scan_transcript u rest
           | Inr (Some g) \<Rightarrow>
               (case validate_email (JStr g) of
                  Inl e \<Rightarrow> Inl e
                | Inr ok \<Rightarrow> if ok then Inr (Some (lower g)) else scan_transcript u rest)))"

text \<open>The \<open>try\<close> block of \<open>extract_customer_email\<close>.\<close>

definition extract_customer_email_try :: "(nat \<Rightarrow> bool) \<Rightarrow> json \<Rightarrow> exn + pystr option" where
  "extract_customer_email_try u conversation_data =
     (case dict_get conversation_data (lit ''conversation_initiation_client_data'') (JObj []) of
        Inl e \<Rightarrow> Inl e
      | Inr client_data \<Rightarrow>
          (case dict_get client_data (lit ''email'') JNull of
             Inl e \<Rightarrow> Inl e
           | Inr email \<Rightarrow>
               (case (if truthy email then validate_email email else Inr False) of
                  Inl e \<Rightarrow> Inl e
                | Inr ok \<Rightarrow>
                    if ok then map_sum id Some (py_lower email)
                    else
                      (case dict_get conversation_data (lit ''transcript'') (JArr []) of
                         Inl e \<Rightarrow> Inl e
                       | Inr transcript \<Rightarrow>
                           (case py_iter transcript of
                              Inl e \<Rightarrow> Inl e
                            | Inr entries \<Rightarrow> scan_transcript u entries)))))"

text \<open>\<open>extract_customer_email\<close>: \<open>except Exception\<close> turns every error into \<open>None\<close>.\<close>

definition extract_customer_email :: "(nat \<Rightarrow> bool) \<Rightarrow> json \<Rightarrow> pystr option" where
  "extract_customer_email u conversation_data =
     (case extract_customer_email_try u conversation_data of
        Inl e \<Rightarrow> None
      | Inr r \<Rightarrow> r)"

section \<open>The outside world\<close>

text \<open>
  What the program changes: the sleeps it has made (\<open>time.sleep\<close>, seconds, oldest
  first), how many calls it has made to each service, the SMTP connections it
  holds open, the messages a server has accepted, and the writes to the audit log.
\<close>

record email_message =
  subject :: pystr
  sender :: pystr
  recipient :: pystr
  text_part :: pystr
  html_part :: pystr

record world =
  slept :: "nat list"
  list_calls :: nat
  detail_calls :: nat
  gemini_calls :: nat
  smtp_connects :: nat
  smtp_open :: nat
  smtp_quits :: nat
  outbox :: "email_message list"
  log_file :: "pystr list"

text \<open>What one SMTP session answers at each step (\<open>None\<close>: the step succeeds).\<close>

record smtp_script =
  on_connect :: "exn option"
  on_starttls :: "exn option"
  on_login :: "exn option"
  on_send :: "exn option"
  on_quit :: "exn option"

text \<open>
  The list endpoint's answer, in the shape the provider gives it: a dict without the
  key \<open>conversations\<close>, or with the summaries under it, newest first. Of a summary
  the program reads the conversation id only.
\<close>

record conversation_summary =
  conversation_id :: pystr

datatype listing = NoConversationsKey | Conversations "conversation_summary list"

text \<open>
  What the outside answers. Each service is a function of the number of calls made
  before: \<open>list_conversations k page_size\<close> and \<open>get_conversation k id\<close> are the
  results of \<open>fetch_conversations\<close> and \<open>fetch_conversation_details\<close> (\<open>None\<close> when
  the request fails), \<open>generate_content k prompt\<close> is \<open>response.text\<close> of the model
  call or the exception it raises, \<open>smtp_session k\<close> the script of the k-th SMTP
  connection. \<open>render\<close> is \<open>str()\<close> of an object that is not a str, \<open>unicode_alnum\<close>
  the table behind \<open>\w\<close>. \<open>display_text\<close> is the text \<open>display_conversation_details\<close>
  returns: it is built from \<open>str()\<close> renderings and a time-zone conversion, the
  function catches every exception, and no statement below reads the text.
\<close>

record env =
  list_conversations :: "nat \<Rightarrow> nat \<Rightarrow> listing option"
  get_conversation :: "nat \<Rightarrow> pystr \<Rightarrow> json option"
  generate_content :: "nat \<Rightarrow> pystr \<Rightarrow> exn + pystr"
  smtp_session :: "nat \<Rightarrow> smtp_script"
  render :: "json \<Rightarrow> pystr"
  unicode_alnum :: "nat \<Rightarrow> bool"
  display_text :: "json \<Rightarrow> pystr \<Rightarrow> pystr"

text \<open>The environment variables \<open>send_email\<close> reads (\<open>None\<close>: not set).\<close>

record config =
  SMTP_EMAIL :: "pystr option"
  SMTP_APP_PASSWORD :: "pystr option"

definition sleep :: "nat \<Rightarrow> world \<Rightarrow> world" where
  "sleep secs w = w\<lparr>slept := slept w @ [secs]\<rparr>"

section \<open>The retry decorator\<close>

text \<open>
  \<open>@retry(stop=stop_after_attempt(n), wait=wait_fixed(secs),
  retry=retry_if_exception_type(...))\<close> around a function \<open>f\<close>: a returned value
  is passed on; an exception the predicate does not select is raised again at once;
  one it selects raises \<open>RetryError\<close> on the last attempt and otherwise sleeps and
  calls \<open>f\<close> again. The first argument is the number of attempts left.
\<close>

fun retrying ::
  "nat \<Rightarrow> (exn \<Rightarrow> bool) \<Rightarrow> nat \<Rightarrow> (world \<Rightarrow> (exn + 'a) \<times> world) \<Rightarrow> world \<Rightarrow> (exn + 'a) \<times> world"
where
  "retrying 0 retry_on secs f w = (Inl (Exn RetryError []), w)"
| "retrying (Suc n) retry_on secs f w =
     (case f w of
        (Inr v, w') \<Rightarrow> (Inr v, w')
      | (Inl e, w') \<Rightarrow>
          if \<not> retry_on e then (Inl e, w')
          else if n = 0 then (Inl (Exn RetryError []), w')
          else retrying n retry_on secs f (sleep secs w'))"

section \<open>The summary generator\<close>

text \<open>An object inside an f-string: a str as it is, anything else through \<open>str()\<close>.\<close>

definition fmt :: "env \<Rightarrow> json \<Rightarrow> pystr" where
  "fmt env v = (case v of JStr s \<Rightarrow> s | _ \<Rightarrow> render env v)"

fun map_exn :: "('a \<Rightarrow> exn + 'b) \<Rightarrow> 'a list \<Rightarrow> exn + 'b list" where
  "map_exn f [] = Inr []"
| "map_exn f (x # xs) =
     (case f x of
        Inl e \<Rightarrow> Inl e
      | Inr y \<Rightarrow> (case map_exn f xs of Inl e \<Rightarrow> Inl e | Inr ys \<Rightarrow> Inr (y # ys)))"

text \<open>One line of \<open>transcript_text\<close>.\<close>

definition transcript_line :: "env \<Rightarrow> json \<Rightarrow> exn + pystr" where
  "transcript_line env entry =
     (case dict_get entry (lit ''time_in_call_secs'') (JInt 0) of
        Inl e \<Rightarrow> Inl e
      | Inr secs \<Rightarrow>
          (case dict_get entry (lit ''role'') (JStr (lit ''Unknown'')) of
             Inl e \<Rightarrow> Inl e
           | Inr role \<Rightarrow>
               (case dict_get entry (lit ''message'') (JStr []) of
                  Inl e \<Rightarrow> Inl e
                | Inr message \<Rightarrow>
                    Inr (lit ''['' @ fmt env secs @ lit ''s] '' @ fmt env role @ lit '': ''
                         @ fmt env (if truthy message then message
                                    else JStr (lit ''No message (e.g., tool call)''))))))"

definition prompt_of :: "pystr \<Rightarrow> pystr" where
  "prompt_of transcript_text =
     lit ''Analyze the following conversation transcript and perform these tasks:'' @ [10]
     @ lit ''1. Extract the email address mentioned in the transcript, if any.'' @ [10]
     @ lit ''If it has a hyphen, remove that hyphen and give output in lowercase.'' @ [10]
     @ lit ''2. Provide a concise summary of the conversation.'' @ [10, 10]
     @ lit ''Transcript:'' @ [10]
     @ transcript_text @ [10, 10]
     @ lit ''Output format:'' @ [10]
     @ lit ''Email: [email address or '' @ [34] @ lit ''None'' @ [34] @ lit '']'' @ [10]
     @ lit ''Summary: [summary of the conversation]'' @ [10]"

text \<open>The \<open>try\<close> block of \<open>send_to_gemini\<close>.\<close>

definition send_to_gemini_try :: "env \<Rightarrow> json \<Rightarrow> world \<Rightarrow> (exn + pystr option) \<times> world" where
  "send_to_gemini_try env transcript w =
     (if \<not> truthy transcript then (Inr None, w)
      else
        (case py_iter transcript of
           Inl e \<Rightarrow> (Inl e, w)
         | Inr entries \<Rightarrow>
             (case map_exn (transcript_line env) entries of
                Inl e \<Rightarrow> (Inl e, w)
              | Inr ls \<Rightarrow>
                  (let w' = w\<lparr>gemini_calls := gemini_calls w + 1\<rparr> in
                   (case generate_content env (gemini_calls w) (prompt_of (join 10 ls)) of
                      Inl e \<Rightarrow> (Inl e, w')
                    | Inr text \<Rightarrow>
                        if text \<noteq> [] then (Inr (Some (lowercase_gemini_response text)), w')
                        else (Inr None, w'))))))"

text \<open>The function under the decorator: \<open>except Exception\<close> returns \<open>None\<close>.\<close>

definition send_to_gemini_fn :: "env \<Rightarrow> json \<Rightarrow> world \<Rightarrow> (exn + pystr option) \<times> world" where
  "send_to_gemini_fn env transcript w =
     (case send_to_gemini_try env transcript w of
        (Inl e, w') \<Rightarrow> (Inr None, w')
      | (Inr r, w') \<Rightarrow> (Inr r, w'))"

text \<open>\<open>send_to_gemini\<close> as the program calls it: three attempts, two seconds, any \<open>Exception\<close>.\<close>

definition send_to_gemini :: "env \<Rightarrow> json \<Rightarrow> world \<Rightarrow> (exn + pystr option) \<times> world" where
  "send_to_gemini env transcript = retrying 3 (\<lambda>e. True) 2 (send_to_gemini_fn env transcript)"

section \<open>The notifier\<close>

text \<open>\<open>not SMTP_EMAIL\<close>: the variable is unset or empty.\<close>

definition is_set :: "pystr option \<Rightarrow> bool" where
  "is_set v = (case v of None \<Rightarrow> False | Some s \<Rightarrow> s \<noteq> [])"

definition summary_or_default :: "pystr \<Rightarrow> pystr" where
  "summary_or_default summary = (if summary \<noteq> [] then summary else lit ''No summary available.'')"

definition compose :: "config \<Rightarrow> pystr \<Rightarrow> pystr \<Rightarrow> pystr \<Rightarrow> email_message" where
  "compose cfg to_email summary cid =
     \<lparr>subject = lit ''Conversation Summary (ID: '' @ cid @ lit '')'',
      sender = (case SMTP_EMAIL cfg of Some a \<Rightarrow> a | None \<Rightarrow> []),
      recipient = to_email,
      text_part = summary_or_default summary,
      html_part = lit ''<h2>Conversation Summary</h2><p>'' @ summary_or_default summary
        @ lit ''</p>'' @ lit ''<p>Conversation ID: '' @ cid
        @ lit ''</p><p>Best regards,<br>The Hotel Team</p>''\<rparr>"

text \<open>\<open>server.starttls(); server.login(...); server.send_message(msg)\<close>\<close>

definition smtp_steps :: "smtp_script \<Rightarrow> email_message \<Rightarrow> world \<Rightarrow> (exn + unit) \<times> world" where
  "smtp_steps sc message w =
     (case on_starttls sc of
        Some e \<Rightarrow> (Inl e, w)
      | None \<Rightarrow>
          (case on_login sc of
             Some e \<Rightarrow> (Inl e, w)
           | None \<Rightarrow>
               (case on_send sc of
                  Some e \<Rightarrow> (Inl e, w)
                | None \<Rightarrow> (Inr (), w\<lparr>outbox := outbox w @ [message]\<rparr>))))"

text \<open>
  \<open>server.quit()\<close> inside \<open>try ... except: pass\<close>: an error of the command is
  swallowed, and \<open>smtplib\<close> closes the socket whether the command succeeds or fails.
\<close>

definition smtp_quit :: "smtp_script \<Rightarrow> world \<Rightarrow> world" where
  "smtp_quit sc w = w\<lparr>smtp_quits := smtp_quits w + 1, smtp_open := smtp_open w - 1\<rparr>"

text \<open>
  The \<open>try\<close> block of \<open>send_email\<close>. The second component is the variable \<open>server\<close>
  when the block is left: \<open>None\<close>, or the session the constructor opened.
\<close>

definition send_email_try ::
  "env \<Rightarrow> config \<Rightarrow> pystr \<Rightarrow> pystr \<Rightarrow> pystr \<Rightarrow> world
     \<Rightarrow> (exn + (bool \<times> pystr)) \<times> smtp_script option \<times> world"
where
  "send_email_try env cfg to_email summary cid w =
     (if \<not> is_set (SMTP_EMAIL cfg) \<or> \<not> is_set (SMTP_APP_PASSWORD cfg)
      then (Inr (False, lit ''Missing SMTP credentials''), None, w)
      else
        (case validate_email (JStr to_email) of
           Inl e \<Rightarrow> (Inl e, None, w)
         | Inr ok \<Rightarrow>
             if \<not> ok then (Inr (False, lit ''Invalid email address''), None, w)
             else
               (let sc = smtp_session env (smtp_connects w);
                    w1 = w\<lparr>smtp_connects := smtp_connects w + 1\<rparr>
                in (case on_connect sc of
                      Some e \<Rightarrow> (Inl e, None, w1)
                    | None \<Rightarrow>
                        (case smtp_steps sc (compose cfg to_email summary cid)
                                (w1\<lparr>smtp_open := smtp_open w1 + 1\<rparr>) of
                           (Inl e, w2) \<Rightarrow> (Inl e, Some sc, w2)
                         | (Inr u, w2) \<Rightarrow> (Inr (True, lit ''Success''), Some sc, w2))))))"

text \<open>The two \<open>except\<close> clauses: what the function returns for an exception of the block.\<close>

definition send_email_except :: "exn \<Rightarrow> bool \<times> pystr" where
  "send_email_except e =
     (if exn_cls e = SMTPAuthenticationError then (False, lit ''Authentication error'')
      else (False, exn_str e))"

text \<open>The function under the decorator: the \<open>except\<close> clauses, then \<open>finally\<close>.\<close>

definition send_email_fn ::
  "env \<Rightarrow> config \<Rightarrow> pystr \<Rightarrow> pystr \<Rightarrow> pystr \<Rightarrow> world \<Rightarrow> (exn + (bool \<times> pystr)) \<times> world"
where
  "send_email_fn env cfg to_email summary cid w =
     (case send_email_try env cfg to_email summary cid w of
        (r, server, w1) \<Rightarrow>
          (Inr (case r of Inl e \<Rightarrow> send_email_except e | Inr v \<Rightarrow> v),
           (case server of None \<Rightarrow> w1 | Some sc \<Rightarrow> smtp_quit sc w1)))"

text \<open>\<open>retry_if_exception_type((smtplib.SMTPException, ConnectionError))\<close>\<close>

definition smtp_or_connection_error :: "exn \<Rightarrow> bool" where
  "smtp_or_connection_error e =
     (exn_cls e = SMTPException \<or> exn_cls e = SMTPAuthenticationError
      \<or> exn_cls e = ConnectionError)"

definition send_email ::
  "env \<Rightarrow> config \<Rightarrow> pystr \<Rightarrow> pystr \<Rightarrow> pystr \<Rightarrow> world \<Rightarrow> (exn + (bool \<times> pystr)) \<times> world"
where
  "send_email env cfg to_email summary cid =
     retrying 3 smtp_or_connection_error 2 (send_email_fn env cfg to_email summary cid)"

section \<open>The conversation fetcher and the monitor loop\<close>







definition recipient_address :: pystr where
  "recipient_address = lit ''ashimlugun09@gmail.com''"








section \<open>Definitions used in the statements and proofs\<close>

text \<open>
  An atom that cannot tell a string from its lowercasing: a literal that is not a
  letter, a class closed under \<open>lower_char\<close>, an anchor.
\<close>

fun ci_atom :: "atom \<Rightarrow> bool" where
  "ci_atom (Chr c) = (\<not> is_upper c \<and> \<not> is_lower c)"
| "ci_atom (AtLeast n P) = (\<forall>c. P (lower_char c) = P c)"
| "ci_atom _ = True"

text \<open>
  The shape \<open>local@domain.tld\<close> in the spec's words: a non-empty local part, \<open>@\<close>, a
  non-empty domain, a dot, and a top-level domain of at least two letters, with the
  characters the pattern of the source allows in each part.
\<close>

definition email_shape :: "pystr \<Rightarrow> bool" where
  "email_shape s =
     (\<exists>l d t. s = l @ 64 # d @ 46 # t \<and> l \<noteq> [] \<and> list_all cls_local l
        \<and> d \<noteq> [] \<and> list_all cls_domain d \<and> 2 \<le> length t \<and> list_all cls_alpha t)"

text \<open>The character before the position reached after reading \<open>a\<close>.\<close>

definition prev :: "nat option \<Rightarrow> pystr \<Rightarrow> nat option" where
  "prev p a = (if a = [] then p else Some (last a))"

text \<open>
  What \<open>lowercase_gemini_response\<close> does to one line, in closed form: a line that
  starts with \<open>Email:\<close> and whose stripped remainder validates is rewritten, every
  other line stays.
\<close>

definition line_out :: "pystr \<Rightarrow> pystr" where
  "line_out line =
     (if startswith line (lit ''Email:'') \<and> re_match_email (strip (drop 6 line))
      then lit ''Email: '' @ lower (strip (drop 6 line))
      else line)"

text \<open>
  A world in which nothing has happened yet, an environment in which every request
  fails, and an SMTP session in which every step succeeds: the starting points of
  the concrete runs below.
\<close>

definition world0 :: world where
  "world0 = \<lparr>slept = [], list_calls = 0, detail_calls = 0, gemini_calls = 0,
             smtp_connects = 0, smtp_open = 0, smtp_quits = 0, outbox = [], log_file = []\<rparr>"

definition smtp_ok :: smtp_script where
  "smtp_ok = \<lparr>on_connect = None, on_starttls = None, on_login = None, on_send = None,
              on_quit = None\<rparr>"

definition quiet_env :: env where
  "quiet_env = \<lparr>list_conversations = (\<lambda>k page_size. None),
                get_conversation = (\<lambda>k cid. None),
                generate_content = (\<lambda>k prompt. Inl (Exn OtherError [])),
                smtp_session = (\<lambda>k. smtp_ok),
                render = (\<lambda>v. []),
                unicode_alnum = (\<lambda>c. False),
                display_text = (\<lambda>details cid. [])\<rparr>"

definition config0 :: config where
  "config0 = \<lparr>SMTP_EMAIL = Some (lit ''bot@hotel.com''), SMTP_APP_PASSWORD = Some (lit ''secret'')\<rparr>"





section \<open>Evaluation\<close>

text \<open>The definitions a concrete run unfolds.\<close>

lemmas eval_defs = lowercase_gemini_response_def lowercase_line_def email_field_ok_def
  validate_email_def re_match_email_def validate_pattern_def lit_def startswith_def
  split1_def index1_def strip_def is_space_def lower_def lower_char_def
  cls_local_def cls_domain_def cls_alpha_def is_lower_def is_upper_def is_digit_def Let_def

lemmas extract_defs = extract_customer_email_def extract_customer_email_try_def
  extract_email_from_gemini_response_def pattern_search_def email_pattern_def
  cls_alpha_bar_def word_before_def word_after_def is_word_def

section \<open>Strings and the matcher\<close>

lemma lower_char_idem: "lower_char (lower_char c) = lower_char c"
  by (simp add: lower_char_def is_upper_def)

lemma lower_idem: "lower (lower s) = lower s"
  by (simp add: lower_def lower_char_idem)

lemma length_lower: "length (lower s) = length s"
  by (simp add: lower_def)

lemma lower_char_eq_nonletter:
  "\<not> is_upper c \<Longrightarrow> \<not> is_lower c \<Longrightarrow> (lower_char x = c) = (x = c)"
  by (auto simp: lower_char_def is_upper_def is_lower_def)

lemma cls_local_lower: "cls_local (lower_char c) = cls_local c"
  by (auto simp: cls_local_def lower_char_def is_upper_def is_lower_def is_digit_def)

lemma cls_domain_lower: "cls_domain (lower_char c) = cls_domain c"
  by (auto simp: cls_domain_def lower_char_def is_upper_def is_lower_def is_digit_def)

lemma cls_alpha_lower: "cls_alpha (lower_char c) = cls_alpha c"
  by (auto simp: cls_alpha_def lower_char_def is_upper_def is_lower_def)

lemma is_word_lower: "is_word u (lower_char c) = is_word u c"
  by (auto simp: is_word_def lower_char_def is_upper_def is_lower_def is_digit_def)

lemma is_space_lower: "is_space (lower_char c) = is_space c"
  by (auto simp: is_space_def lower_char_def is_upper_def)

lemma lower_Nil: "lower [] = []"
  by (simp add: lower_def)

lemma lower_Cons: "lower (x # xs) = lower_char x # lower xs"
  by (simp add: lower_def)

lemma lower_eq_Nil: "(lower s = []) = (s = [])"
  by (simp add: lower_def)

lemma lower_eq_nl: "(lower s = [10]) = (s = [10])"
  by (cases s) (auto simp: lower_def lower_char_def is_upper_def)

declare re_at.simps(6) [simp del]

lemma re_at_AtLeast_Nil [simp]:
  "re_at u (AtLeast n P # as) p [] = (if n = 0 then re_at u as p [] else None)"
  by (simp add: re_at.simps(6))

lemma re_at_AtLeast_Cons [simp]:
  "re_at u (AtLeast n P # as) p (x # xs) =
     (case (if P x then map_option Suc (re_at u (AtLeast (n - 1) P # as) (Some x) xs) else None) of
        Some r \<Rightarrow> Some r
      | None \<Rightarrow> if n = 0 then re_at u as p (x # xs) else None)"
  by (simp add: re_at.simps(6))

declare re_search.simps [simp del]

lemma re_search_Nil [simp]:
  "re_search u as p [] = (case re_at u as p [] of Some n \<Rightarrow> Some [] | None \<Rightarrow> None)"
  by (simp add: re_search.simps split: option.split)

lemma re_search_Cons [simp]:
  "re_search u as p (x # xs) =
     (case re_at u as p (x # xs) of
        Some n \<Rightarrow> Some (take n (x # xs))
      | None \<Rightarrow> re_search u as (Some x) xs)"
  by (simp add: re_search.simps split: option.split)

lemma re_at_AtLeast_lower:
  assumes P: "\<And>c. P (lower_char c) = P c"
    and IH: "\<And>p s. re_at u as (map_option lower_char p) (lower s) = re_at u as p s"
  shows "re_at u (AtLeast n P # as) (map_option lower_char p) (lower s)
       = re_at u (AtLeast n P # as) p s"
proof (induction s arbitrary: n p)
  case Nil
  show ?case using IH [of p "[]"] by (simp add: lower_Nil)
next
  case (Cons x xs)
  show ?case
    using Cons.IH [of "n - 1" "Some x"] IH [of p "x # xs"]
    by (simp add: lower_Cons P split: option.split)
qed

lemma re_at_lower:
  "list_all ci_atom as \<Longrightarrow> re_at u as (map_option lower_char p) (lower s) = re_at u as p s"
proof (induction as arbitrary: p s)
  case Nil
  show ?case by simp
next
  case (Cons a as)
  then have IH: "\<And>p s. re_at u as (map_option lower_char p) (lower s) = re_at u as p s"
    and a: "ci_atom a"
    by simp_all
  show ?case
  proof (cases a)
    case Bol
    then show ?thesis using IH [of p s] by (cases p) simp_all
  next
    case Eol
    then show ?thesis using IH [of p s] by (simp add: lower_eq_Nil lower_eq_nl)
  next
    case WordB
    have "word_before u (map_option lower_char p) = word_before u p"
      by (cases p) (simp_all add: word_before_def is_word_lower)
    moreover have "word_after u (lower s) = word_after u s"
      by (cases s) (simp_all add: word_after_def lower_def is_word_lower)
    ultimately show ?thesis using WordB IH [of p s] by simp
  next
    case (Chr c)
    with a have c: "\<And>x. (lower_char x = c) = (x = c)"
      by (simp add: lower_char_eq_nonletter)
    show ?thesis
    proof (cases s)
      case Nil
      then show ?thesis using Chr by (simp add: lower_Nil)
    next
      case (Cons x xs)
      then show ?thesis using Chr c IH [of "Some x" xs] by (auto simp: lower_Cons)
    qed
  next
    case (AtLeast n P)
    with a have "\<And>c. P (lower_char c) = P c" by simp
    then show ?thesis unfolding AtLeast using IH by (rule re_at_AtLeast_lower)
  qed
qed

lemma re_match_email_lower: "re_match_email (lower s) = re_match_email s"
  using re_at_lower [of validate_pattern "\<lambda>c. False" None s]
  by (simp add: re_match_email_def validate_pattern_def cls_local_lower cls_domain_lower
      cls_alpha_lower is_upper_def is_lower_def)

lemma re_at_AtLeast_iff:
  "(re_at u (AtLeast n P # as) p s \<noteq> None) =
     (\<exists>a b. s = a @ b \<and> n \<le> length a \<and> list_all P a \<and> re_at u as (prev p a) b \<noteq> None)"
proof (induction s arbitrary: n p)
  case Nil
  show ?case by (simp add: prev_def)
next
  case (Cons x xs)
  have split: "(\<exists>a b. x # xs = a @ b \<and> n \<le> length a \<and> list_all P a \<and> re_at u as (prev p a) b \<noteq> None)
      = ((n = 0 \<and> re_at u as p (x # xs) \<noteq> None)
         \<or> (P x \<and> (\<exists>a b. xs = a @ b \<and> n - 1 \<le> length a \<and> list_all P a
                \<and> re_at u as (prev (Some x) a) b \<noteq> None)))"
    (is "?L = (?A \<or> ?B)")
  proof
    assume ?L
    then obtain a b where ab: "x # xs = a @ b" "n \<le> length a" "list_all P a"
      "re_at u as (prev p a) b \<noteq> None" by blast
    show "?A \<or> ?B"
    proof (cases a)
      case Nil
      with ab show ?thesis by (simp add: prev_def)
    next
      case (Cons y a')
      with ab have "xs = a' @ b" "n - 1 \<le> length a'" "P x" "list_all P a'"
        "re_at u as (prev (Some x) a') b \<noteq> None"
        by (auto simp: prev_def)
      then show ?thesis by blast
    qed
  next
    assume "?A \<or> ?B"
    then show ?L
    proof
      assume ?A
      then have "x # xs = [] @ (x # xs) \<and> n \<le> length ([]::pystr) \<and> list_all P []
          \<and> re_at u as (prev p []) (x # xs) \<noteq> None"
        by (simp add: prev_def)
      then show ?L by blast
    next
      assume ?B
      then obtain a b where ab: "P x" "xs = a @ b" "n - 1 \<le> length a" "list_all P a"
        "re_at u as (prev (Some x) a) b \<noteq> None" by blast
      then have "x # xs = (x # a) @ b \<and> n \<le> length (x # a) \<and> list_all P (x # a)
          \<and> re_at u as (prev p (x # a)) b \<noteq> None"
        by (auto simp: prev_def)
      then show ?L by blast
    qed
  qed
  show ?case
    unfolding split using Cons.IH [of "n - 1" "Some x"]
    by (auto split: option.splits)
qed

lemma re_at_Chr_iff:
  "(re_at u (Chr c # as) p s \<noteq> None) = (\<exists>xs. s = c # xs \<and> re_at u as (Some c) xs \<noteq> None)"
  by (cases s) auto

lemma re_at_Eol_iff: "(re_at u [Eol] p s \<noteq> None) = (s = [] \<or> s = [10])"
  by simp

lemma validate_pattern_iff:
  "(re_at u validate_pattern None s \<noteq> None) =
     (\<exists>l d t e. s = l @ 64 # d @ 46 # t @ e \<and> 1 \<le> length l \<and> list_all cls_local l
        \<and> 1 \<le> length d \<and> list_all cls_domain d \<and> 2 \<le> length t \<and> list_all cls_alpha t
        \<and> (e = [] \<or> e = [10]))"
  unfolding validate_pattern_def
  apply (simp only: re_at.simps(2) re_at_AtLeast_iff re_at_Chr_iff re_at_Eol_iff simp_thms if_True)
  apply (rule iffI)
   apply (elim exE conjE)
  subgoal for a b xs aa ba xsa ab bb
    apply (rule exI [of _ a], rule exI [of _ aa], rule exI [of _ ab], rule exI [of _ bb])
    apply simp
    done
  apply (elim exE conjE)
  subgoal for l d t e
    apply (rule exI [of _ l], rule exI [of _ "64 # d @ 46 # t @ e"])
    apply simp
    apply (rule exI [of _ d], rule exI [of _ "46 # t @ e"])
    apply simp
    apply (rule exI [of _ t], rule exI [of _ e])
    apply simp
    done
  done


lemma re_match_email_iff:
  "re_match_email s = (email_shape s \<or> (\<exists>t. s = t @ [10] \<and> email_shape t))"
proof -
  have "re_match_email s =
     (\<exists>l d t e. s = l @ 64 # d @ 46 # t @ e \<and> 1 \<le> length l \<and> list_all cls_local l
        \<and> 1 \<le> length d \<and> list_all cls_domain d \<and> 2 \<le> length t \<and> list_all cls_alpha t
        \<and> (e = [] \<or> e = [10]))"
    unfolding re_match_email_def by (rule validate_pattern_iff)
  also have "\<dots> = (email_shape s \<or> (\<exists>t. s = t @ [10] \<and> email_shape t))"
    (is "?L = ?R")
  proof
    assume ?L
    then obtain l d t e where *: "s = l @ 64 # d @ 46 # t @ e" "l \<noteq> []" "list_all cls_local l"
        "d \<noteq> []" "list_all cls_domain d" "2 \<le> length t" "list_all cls_alpha t"
        "e = [] \<or> e = [10]"
      by (auto simp: Suc_le_eq)
    then have sh: "email_shape (l @ 64 # d @ 46 # t)"
      unfolding email_shape_def by blast
    from *(8) show ?R
    proof
      assume "e = []"
      with * sh show ?R by simp
    next
      assume "e = [10]"
      with * have "s = (l @ 64 # d @ 46 # t) @ [10]" by simp
      with sh show ?R by blast
    qed
  next
    assume ?R
    then show ?L
    proof
      assume "email_shape s"
      then obtain l d t where "s = l @ 64 # d @ 46 # t @ []" "1 \<le> length l" "list_all cls_local l"
        "1 \<le> length d" "list_all cls_domain d" "2 \<le> length t" "list_all cls_alpha t"
        unfolding email_shape_def by (auto simp: Suc_le_eq)
      then show ?L by blast
    next
      assume "\<exists>t. s = t @ [10] \<and> email_shape t"
      then obtain l d t where "s = l @ 64 # d @ 46 # t @ [10]" "1 \<le> length l" "list_all cls_local l"
        "1 \<le> length d" "list_all cls_domain d" "2 \<le> length t" "list_all cls_alpha t"
        unfolding email_shape_def by (auto simp: Suc_le_eq)
      then show ?L by blast
    qed
  qed
  finally show ?thesis .
qed

lemma cls_ascii:
  "cls_local c \<Longrightarrow> c < 128" "cls_domain c \<Longrightarrow> c < 128" "cls_alpha c \<Longrightarrow> c < 128"
  by (auto simp: cls_local_def cls_domain_def cls_alpha_def is_lower_def is_upper_def is_digit_def)

lemma email_shape_ascii: "email_shape s \<Longrightarrow> list_all (\<lambda>c. c < 128) s"
  unfolding email_shape_def list_all_iff
  apply (elim exE conjE)
  apply (simp add: ball_Un)
  apply (intro conjI ballI)
  apply (drule (1) bspec, erule cls_ascii)+
  done

lemma re_match_email_ascii: "re_match_email s \<Longrightarrow> list_all (\<lambda>c. c < 128) s"
  unfolding re_match_email_iff using email_shape_ascii by auto

lemma email_shape_last_alpha: "email_shape s \<Longrightarrow> s \<noteq> [] \<and> cls_alpha (last s)"
  unfolding email_shape_def
  by (auto simp: list_all_iff)

lemma re_match_email_nonempty: "re_match_email s \<Longrightarrow> s \<noteq> []"
  by (auto simp: re_match_email_def validate_pattern_def)

lemma not_match_None: "\<not> re_match_email (lit ''None'')"
  by (simp add: re_match_email_def validate_pattern_def lit_def cls_local_def is_lower_def
      is_upper_def is_digit_def)


section \<open>split and join\<close>

lemma split_not_Nil: "split d s \<noteq> []"
  by (induction s) (simp_all add: Let_def)

lemma split_no_sep: "l \<in> set (split d s) \<Longrightarrow> d \<notin> set l"
proof (induction s arbitrary: l)
  case Nil
  then show ?case by simp
next
  case (Cons c cs)
  show ?case
  proof (cases "c = d")
    case True
    with Cons show ?thesis by auto
  next
    case False
    obtain h t where ht: "split d cs = h # t"
      using split_not_Nil [of d cs] by (cases "split d cs") auto
    with Cons False show ?thesis by (auto simp: Let_def)
  qed
qed

lemma join_split: "join d (split d s) = s"
proof (induction s)
  case Nil
  show ?case by simp
next
  case (Cons c cs)
  obtain h t where ht: "split d cs = h # t"
    using split_not_Nil [of d cs] by (cases "split d cs") auto
  show ?case
  proof (cases "c = d")
    case True
    with Cons ht show ?thesis by simp
  next
    case False
    with Cons ht show ?thesis by (cases t) (simp_all add: Let_def)
  qed
qed

lemma split_nosep: "d \<notin> set l \<Longrightarrow> split d l = [l]"
  by (induction l) (auto simp: Let_def)

lemma split_append_sep: "d \<notin> set l \<Longrightarrow> split d (l @ d # r) = l # split d r"
  by (induction l) (auto simp: Let_def)

lemma split_join:
  "ls \<noteq> [] \<Longrightarrow> \<forall>l\<in>set ls. d \<notin> set l \<Longrightarrow> split d (join d ls) = ls"
proof (induction d ls rule: join.induct)
  case (1 d)
  then show ?case by simp
next
  case (2 d l)
  then show ?case by (simp add: split_nosep)
next
  case (3 d l m ls)
  then show ?case by (simp add: split_append_sep)
qed

section \<open>strip\<close>

lemma strip_subset: "set (strip s) \<subseteq> set s"
proof -
  have "set (dropWhile is_space (rev (dropWhile is_space s))) \<subseteq> set (rev (dropWhile is_space s))"
    by (rule set_dropWhileD [THEN subsetI])
  also have "\<dots> \<subseteq> set s"
    using set_dropWhileD [of _ is_space s] by auto
  finally show ?thesis by (simp add: strip_def)
qed

lemma strip_ends:
  assumes "strip s \<noteq> []"
  shows "\<not> is_space (hd (strip s))" and "\<not> is_space (last (strip s))"
proof -
  let ?a = "dropWhile is_space s"
  let ?b = "dropWhile is_space (rev ?a)"
  from assms have b: "?b \<noteq> []" by (simp add: strip_def)
  then have "\<not> is_space (hd ?b)" by (rule hd_dropWhile)
  then show "\<not> is_space (last (strip s))"
    using b by (simp add: strip_def last_rev)
  have a: "?a \<noteq> []"
  proof
    assume "?a = []"
    then have "?b = []" by (simp only: rev.simps dropWhile.simps)
    with b show False by (simp only: not_True_eq_False simp_thms)
  qed
  then have ha: "\<not> is_space (hd ?a)" by (rule hd_dropWhile)
  have "hd (rev ?b) = hd ?a"
  proof -
    from a obtain x xs where x: "?a = x # xs" by (cases ?a) auto
    with ha have nx: "\<not> is_space x" by simp
    have "rev ?a = rev xs @ [x]" using x by simp
    then have "?b = dropWhile is_space (rev xs) @ [x]"
      using nx by (simp add: dropWhile_append)
    then show ?thesis using x by simp
  qed
  with ha show "\<not> is_space (hd (strip s))" by (simp add: strip_def)
qed

lemma strip_id:
  "s \<noteq> [] \<Longrightarrow> \<not> is_space (hd s) \<Longrightarrow> \<not> is_space (last s) \<Longrightarrow> strip s = s"
proof -
  assume s: "s \<noteq> []" and h: "\<not> is_space (hd s)" and l: "\<not> is_space (last s)"
  from s h have 1: "dropWhile is_space s = s" by (cases s) auto
  from s l have 2: "dropWhile is_space (rev s) = rev s"
    by (cases "rev s") (auto simp: last_rev [symmetric] simp del: last_rev)
  show ?thesis by (simp add: strip_def 1 2)
qed

lemma strip_space_Cons: "is_space c \<Longrightarrow> s \<noteq> [] \<Longrightarrow> \<not> is_space (hd s) \<Longrightarrow> strip (c # s) = strip s"
  by (cases s) (simp_all add: strip_def)

section \<open>The response post-processing\<close>

lemma length_Email: "length (lit ''Email:'') = 6"
  by (simp add: lit_def)

lemma startswith_Email:
  "startswith line (lit ''Email:'') = (\<exists>r. line = lit ''Email:'' @ r)"
proof
  assume "startswith line (lit ''Email:'')"
  then have "take 6 line = lit ''Email:''"
    unfolding startswith_def length_Email .
  then have "line = lit ''Email:'' @ drop 6 line"
    by (metis append_take_drop_id)
  then show "\<exists>r. line = lit ''Email:'' @ r" ..
next
  assume "\<exists>r. line = lit ''Email:'' @ r"
  then show "startswith line (lit ''Email:'')"
    by (auto simp: startswith_def)
qed

lemma after_colon:
  assumes "startswith line (lit ''Email:'')"
  shows "index1 (split1 58 line) = Inr (drop 6 line)"
proof -
  from assms obtain r where "line = lit ''Email:'' @ r"
    unfolding startswith_Email ..
  then show ?thesis
    by (simp add: split1_def index1_def lit_def)
qed

lemma email_field_ok_eq: "email_field_ok e = Inr (re_match_email e)"
  using not_match_None re_match_email_nonempty [of e]
  by (auto simp: email_field_ok_def validate_email_def)

lemma lowercase_line_eq: "lowercase_line line = Inr (line_out line)"
  by (simp add: lowercase_line_def line_out_def after_colon email_field_ok_eq)

lemma lowercase_lines_eq: "lowercase_lines ls = Inr (map line_out ls)"
  by (induction ls) (simp_all add: lowercase_line_eq)

lemma line_out_Nil: "line_out [] = []"
  by (simp add: line_out_def startswith_def lit_def)

lemma lowercase_gemini_response_eq:
  "lowercase_gemini_response r = join 10 (map line_out (split 10 r))"
  by (cases r) (simp_all add: lowercase_gemini_response_def lowercase_lines_eq line_out_Nil)

lemma nl_lower: "(10 \<in> set (lower s)) = (10 \<in> set s)"
  by (induction s) (auto simp: lower_Nil lower_Cons lower_char_def is_upper_def)

lemma line_out_no_nl: "10 \<notin> set l \<Longrightarrow> 10 \<notin> set (line_out l)"
proof -
  assume l: "10 \<notin> set l"
  have "set (strip (drop 6 l)) \<subseteq> set l"
    using strip_subset [of "drop 6 l"] set_drop_subset [of 6 l] by blast
  with l have "10 \<notin> set (lower (strip (drop 6 l)))"
    by (auto simp: nl_lower)
  with l show ?thesis by (simp add: line_out_def lit_def)
qed

lemma lower_ends:
  "s \<noteq> [] \<Longrightarrow> hd (lower s) = lower_char (hd s) \<and> last (lower s) = lower_char (last s)"
  by (simp add: lower_def hd_map last_map)

lemma lower_not_None: "lower s \<noteq> lit ''None''"
proof
  assume "lower s = lit ''None''"
  then have "lower (lower s) = lower (lit ''None'')" by simp
  then have "lower s = lower (lit ''None'')" by (simp add: lower_idem)
  with \<open>lower s = lit ''None''\<close> show False
    by (simp add: lit_def lower_def lower_char_def is_upper_def)
qed

lemma line_out_idem: "line_out (line_out l) = line_out l"
proof (cases "startswith l (lit ''Email:'') \<and> re_match_email (strip (drop 6 l))")
  case False
  then show ?thesis by (auto simp: line_out_def)
next
  case True
  define e where "e = strip (drop 6 l)"
  from True have m: "re_match_email e" by (simp add: e_def)
  then have ne: "e \<noteq> []" by (rule re_match_email_nonempty)
  then have ends: "\<not> is_space (hd e)" "\<not> is_space (last e)"
    unfolding e_def by (rule strip_ends)+
  have lne: "lower e \<noteq> []" using ne by (simp add: lower_eq_Nil)
  have lends: "\<not> is_space (hd (lower e))" "\<not> is_space (last (lower e))"
    using ends lower_ends [OF ne] by (simp_all add: is_space_lower)
  have out: "line_out l = lit ''Email: '' @ lower e"
    using True by (simp add: line_out_def e_def)
  have sw: "startswith (lit ''Email: '' @ lower e) (lit ''Email:'')"
    by (simp add: startswith_def lit_def)
  have dr: "drop 6 (lit ''Email: '' @ lower e) = 32 # lower e"
    by (simp add: lit_def)
  have st: "strip (32 # lower e) = lower e"
    using strip_space_Cons [of 32 "lower e"] strip_id [of "lower e"] lne lends
    by (simp add: is_space_def)
  have "line_out (lit ''Email: '' @ lower e) =
      (if startswith (lit ''Email: '' @ lower e) (lit ''Email:'')
          \<and> re_match_email (strip (drop 6 (lit ''Email: '' @ lower e)))
       then lit ''Email: '' @ lower (strip (drop 6 (lit ''Email: '' @ lower e)))
       else lit ''Email: '' @ lower e)"
    by (rule line_out_def)
  also have "\<dots> = lit ''Email: '' @ lower (lower e)"
    by (simp only: sw dr st re_match_email_lower m simp_thms if_True)
  finally show ?thesis
    unfolding out by (simp only: lower_idem)
qed

section \<open>The claims about validation and post-processing\<close>

lemma validate_email_str:
  "validate_email (JStr s) = Inr (email_shape s \<or> (\<exists>t. s = t @ [10] \<and> email_shape t))"
proof (cases "s = []")
  case True
  then show ?thesis
    using re_match_email_nonempty [of s] by (auto simp: validate_email_def re_match_email_iff)
next
  case False
  then show ?thesis by (simp add: validate_email_def re_match_email_iff)
qed

lemma email_shape_no_nl: "email_shape s \<Longrightarrow> last s \<noteq> 10"
  using email_shape_last_alpha [of s] by (auto simp: cls_alpha_def is_lower_def is_upper_def)

text \<open>
  C6. \<open>validate_email\<close> accepts \<open>a@b.co\<close> followed by a newline, which is not of the
  shape \<open>local@domain.tld\<close>: \<open>$\<close> also matches before a newline that ends the string.
  For every string, the result is true exactly when the string, or the string
  without one final newline, has the shape.
\<close>

theorem validate_email_trailing_newline:
  "validate_email (JStr (lit ''a@b.co'' @ [10])) = Inr True
   \<and> \<not> email_shape (lit ''a@b.co'' @ [10])
   \<and> validate_email (JStr s) = Inr (email_shape s \<or> (\<exists>t. s = t @ [10] \<and> email_shape t))"
proof (intro conjI)
  show "validate_email (JStr s) = Inr (email_shape s \<or> (\<exists>t. s = t @ [10] \<and> email_shape t))"
    by (rule validate_email_str)
  have "email_shape ([97] @ 64 # [98] @ 46 # [99, 111])"
    unfolding email_shape_def
    by (intro exI [of _ "[97]"] exI [of _ "[98]"] exI [of _ "[99, 111]"])
      (simp add: cls_local_def cls_domain_def cls_alpha_def is_lower_def)
  then show "validate_email (JStr (lit ''a@b.co'' @ [10])) = Inr True"
    by (simp add: validate_email_str lit_def)
  show "\<not> email_shape (lit ''a@b.co'' @ [10])"
    using email_shape_no_nl [of "lit ''a@b.co'' @ [10]"] by auto
qed

lemma validate_email_examples:
  "validate_email (JStr (lit ''a@b.co'')) = Inr True"
  "validate_email (JStr (lit ''a@b'')) = Inr False"
  "validate_email (JStr []) = Inr False"
  "validate_email JNull = Inr False"
  by (simp_all add: validate_email_def re_match_email_def validate_pattern_def lit_def
      cls_local_def cls_domain_def cls_alpha_def is_lower_def is_upper_def is_digit_def)

lemma validate_email_JStr: "validate_email (JStr s) = Inr (re_match_email s)"
  using re_match_email_nonempty [of s] by (auto simp: validate_email_def)

lemma all_less_two: "(\<forall>i<2. P i) = (P (0::nat) \<and> P 1)"
  by (auto simp: less_2_cases_iff)

lemma lines_after:
  "split 10 (lowercase_gemini_response r) = map line_out (split 10 r)"
proof -
  have "\<forall>l\<in>set (map line_out (split 10 r)). 10 \<notin> set l"
    using split_no_sep [of _ 10 r] line_out_no_nl by auto
  moreover have "map line_out (split 10 r) \<noteq> []"
    using split_not_Nil [of 10 r] by simp
  ultimately show ?thesis
    unfolding lowercase_gemini_response_eq by (rule split_join [rotated])
qed

lemma line_out_cases:
  "line_out l = l \<or>
   (startswith l (lit ''Email:'') \<and> line_out l = lit ''Email: '' @ lower (strip (drop 6 l)))"
  by (simp add: line_out_def)

lemma line_out_other: "\<not> startswith l (lit ''Email:'') \<Longrightarrow> line_out l = l"
  by (simp add: line_out_def)

text \<open>
  C7, as the claim states it, fails in its second half: on a line whose address is
  already lowercase the function still changes the line, because it rebuilds the
  line as \<open>Email:\<close>, one space and the stripped address. The result differs from
  the input in more than the casing.
\<close>

theorem lowercase_gemini_response_changes_spacing:
  "lowercase_gemini_response (lit ''Email:a@b.co'') = lit ''Email: a@b.co''
   \<and> lower (lowercase_gemini_response (lit ''Email:a@b.co'')) \<noteq> lower (lit ''Email:a@b.co'')"
proof -
  have 1: "lowercase_gemini_response (lit ''Email:a@b.co'') = lit ''Email: a@b.co''"
    by (simp add: eval_defs)
  show ?thesis
    unfolding 1 by (simp add: lit_def lower_def)
qed

text \<open>
  C7, amended. \<open>lowercase_gemini_response\<close> is idempotent. It keeps the number of
  lines, leaves every line that does not start with \<open>Email:\<close> (the \<open>Summary:\<close> line
  among them) as it is, and a line it changes becomes \<open>Email:\<close>, one space and the
  lowercased address that stood on it, without the whitespace around the address.
  It changes a line in this way when the line starts with \<open>Email:\<close> and the address
  on it validates, and leaves the line as it is when the address does not validate.
\<close>

theorem lowercase_gemini_response_idempotent:
  "lowercase_gemini_response (lowercase_gemini_response r) = lowercase_gemini_response r
   \<and> length (split 10 (lowercase_gemini_response r)) = length (split 10 r)
   \<and> (\<forall>i < length (split 10 r).
        (\<not> startswith (split 10 r ! i) (lit ''Email:'')
           \<longrightarrow> split 10 (lowercase_gemini_response r) ! i = split 10 r ! i)
        \<and> (startswith (split 10 r ! i) (lit ''Summary:'')
           \<longrightarrow> split 10 (lowercase_gemini_response r) ! i = split 10 r ! i)
        \<and> (split 10 (lowercase_gemini_response r) ! i = split 10 r ! i
           \<or> split 10 (lowercase_gemini_response r) ! i
                = lit ''Email: '' @ lower (strip (drop 6 (split 10 r ! i))))
        \<and> (startswith (split 10 r ! i) (lit ''Email:'')
             \<and> validate_email (JStr (strip (drop 6 (split 10 r ! i)))) = Inr True
           \<longrightarrow> split 10 (lowercase_gemini_response r) ! i
                = lit ''Email: '' @ lower (strip (drop 6 (split 10 r ! i))))
        \<and> (validate_email (JStr (strip (drop 6 (split 10 r ! i)))) = Inr False
           \<longrightarrow> split 10 (lowercase_gemini_response r) ! i = split 10 r ! i))"
proof (intro conjI allI impI)
  have "lowercase_gemini_response (lowercase_gemini_response r)
      = join 10 (map line_out (split 10 (lowercase_gemini_response r)))"
    by (rule lowercase_gemini_response_eq)
  also have "\<dots> = join 10 (map line_out (map line_out (split 10 r)))"
    by (simp only: lines_after)
  also have "\<dots> = join 10 (map line_out (split 10 r))"
    by (simp add: line_out_idem comp_def)
  finally show "lowercase_gemini_response (lowercase_gemini_response r)
      = lowercase_gemini_response r"
    by (simp only: lowercase_gemini_response_eq)
next
  show "length (split 10 (lowercase_gemini_response r)) = length (split 10 r)"
    by (simp add: lines_after)
next
  fix i assume "i < length (split 10 r)" "\<not> startswith (split 10 r ! i) (lit ''Email:'')"
  then show "split 10 (lowercase_gemini_response r) ! i = split 10 r ! i"
    by (simp add: lines_after line_out_other)
next
  fix i assume i: "i < length (split 10 r)" and "startswith (split 10 r ! i) (lit ''Summary:'')"
  then have "\<not> startswith (split 10 r ! i) (lit ''Email:'')"
    by (cases "split 10 r ! i") (auto simp: startswith_def lit_def)
  with i show "split 10 (lowercase_gemini_response r) ! i = split 10 r ! i"
    by (simp add: lines_after line_out_other)
next
  fix i assume "i < length (split 10 r)"
  then show "split 10 (lowercase_gemini_response r) ! i = split 10 r ! i
           \<or> split 10 (lowercase_gemini_response r) ! i
                = lit ''Email: '' @ lower (strip (drop 6 (split 10 r ! i)))"
    using line_out_cases [of "split 10 r ! i"] by (auto simp: lines_after)
next
  fix i
  assume "i < length (split 10 r)"
    and "startswith (split 10 r ! i) (lit ''Email:'')
         \<and> validate_email (JStr (strip (drop 6 (split 10 r ! i)))) = Inr True"
  then show "split 10 (lowercase_gemini_response r) ! i
      = lit ''Email: '' @ lower (strip (drop 6 (split 10 r ! i)))"
    by (simp add: lines_after line_out_def validate_email_JStr)
next
  fix i
  assume "i < length (split 10 r)"
    and "validate_email (JStr (strip (drop 6 (split 10 r ! i)))) = Inr False"
  then show "split 10 (lowercase_gemini_response r) ! i = split 10 r ! i"
    by (simp add: lines_after line_out_def validate_email_JStr)
qed

theorem lowercase_gemini_response_idempotent_witness:
  "1 < length (split 10 (lit ''Email:  A@B.co '' @ 10 # lit ''Summary: Hi''))
   \<and> startswith (split 10 (lit ''Email:  A@B.co '' @ 10 # lit ''Summary: Hi'') ! 1) (lit ''Summary:'')
   \<and> split 10 (lowercase_gemini_response (lit ''Email:  A@B.co '' @ 10 # lit ''Summary: Hi'')) ! 1
       = lit ''Summary: Hi''
   \<and> lowercase_gemini_response (lit ''Email:  A@B.co '' @ 10 # lit ''Summary: Hi'')
       = lit ''Email: a@b.co'' @ 10 # lit ''Summary: Hi''
   \<and> lowercase_gemini_response (lit ''Email: a@b.co'' @ 10 # lit ''Summary: Hi'')
       = lit ''Email: a@b.co'' @ 10 # lit ''Summary: Hi''
   \<and> validate_email (JStr (strip (drop 6 (lit ''Email:  A@B.co '')))) = Inr True
   \<and> split 10 (lowercase_gemini_response (lit ''Email:  A@B.co '' @ 10 # lit ''Summary: Hi'')) ! 0
       = lit ''Email: '' @ lower (strip (drop 6 (lit ''Email:  A@B.co '')))"
proof -
  have 1: "lowercase_gemini_response (lit ''Email:  A@B.co '' @ 10 # lit ''Summary: Hi'')
     = lit ''Email: a@b.co'' @ 10 # lit ''Summary: Hi''"
    by (simp add: eval_defs)
  have 2: "split 10 (lit ''Email:  A@B.co '' @ 10 # lit ''Summary: Hi'')
     = [lit ''Email:  A@B.co '', lit ''Summary: Hi'']"
    by (simp add: lit_def)
  have 3: "validate_email (JStr (strip (drop 6 (lit ''Email:  A@B.co '')))) = Inr True"
    by (simp add: eval_defs)
  have 4: "startswith (lit ''Email:  A@B.co '') (lit ''Email:'')"
    by (simp add: startswith_def lit_def)
  from lowercase_gemini_response_idempotent [of "lit ''Email:  A@B.co '' @ 10 # lit ''Summary: Hi''"]
  have "split 10 (lowercase_gemini_response (lit ''Email:  A@B.co '' @ 10 # lit ''Summary: Hi'')) ! 0
       = lit ''Email: '' @ lower (strip (drop 6 (lit ''Email:  A@B.co '')))"
    unfolding 2 using 3 4 by (simp add: all_less_two)
  moreover
  have "1 < length (split 10 (lit ''Email:  A@B.co '' @ 10 # lit ''Summary: Hi''))
   \<and> startswith (split 10 (lit ''Email:  A@B.co '' @ 10 # lit ''Summary: Hi'') ! 1) (lit ''Summary:'')
   \<and> split 10 (lowercase_gemini_response (lit ''Email:  A@B.co '' @ 10 # lit ''Summary: Hi'')) ! 1
       = lit ''Summary: Hi''
   \<and> lowercase_gemini_response (lit ''Email:  A@B.co '' @ 10 # lit ''Summary: Hi'')
       = lit ''Email: a@b.co'' @ 10 # lit ''Summary: Hi''
   \<and> lowercase_gemini_response (lit ''Email: a@b.co'' @ 10 # lit ''Summary: Hi'')
       = lit ''Email: a@b.co'' @ 10 # lit ''Summary: Hi''"
    using lowercase_gemini_response_idempotent [of "lit ''Email:  A@B.co '' @ 10 # lit ''Summary: Hi''"]
    unfolding 1 2 by (simp add: lit_def startswith_def)
  ultimately show ?thesis using 3 by blast
qed

section \<open>Every extracted address is validated and lowercased\<close>


lemma validate_email_True: "validate_email v = Inr True \<Longrightarrow> \<exists>s. v = JStr s \<and> re_match_email s"
  by (cases v) (auto simp: validate_email_def split: if_splits)





section \<open>The priority order of the email extractor\<close>

text \<open>
  The first half of the priority order holds: an email field of the client data that
  validates is returned lowercased, whatever the transcript holds.
\<close>

lemma extract_customer_email_metadata_first:
  assumes "dict_get d (lit ''conversation_initiation_client_data'') (JObj []) = Inr cd"
    and "dict_get cd (lit ''email'') JNull = Inr email"
    and v: "validate_email email = Inr True"
  shows "\<exists>e. email = JStr e \<and> extract_customer_email u d = Some (lower e)"
proof -
  from v obtain e where e: "email = JStr e" "re_match_email e"
    using validate_email_True by blast
  then have "truthy email" using re_match_email_nonempty by auto
  with assms e show ?thesis
    by (simp add: extract_customer_email_def extract_customer_email_try_def)
qed

text \<open>
  C8. The transcript source fails on two inputs. A transcript entry whose message is
  \<open>null\<close> (an entry without text, such as a tool call) stands before the message that
  names the address \<open>a@b.co\<close>: the search raises on the \<open>null\<close> message, the \<open>except\<close>
  clause returns \<open>None\<close>, and the later message is never read, although the search
  finds the address there and it validates (without the \<open>null\<close> entry the address is
  returned). The result is \<open>None\<close> whatever follows such an entry. And in the message
  \<open>x@y.c|om a@b.co\<close> the first match of the search pattern is \<open>x@y.c|om\<close>, because its
  class \<open>[A-Z|a-z]\<close> accepts the bar; that match does not validate, the loop goes on
  to the next message and not to the next match, and the result is \<open>None\<close>.
\<close>

theorem extract_customer_email_misses_address:
  "extract_customer_email u
      (JObj [(lit ''transcript'',
              JArr [JObj [(lit ''role'', JStr (lit ''agent'')), (lit ''message'', JNull)],
                    JObj [(lit ''role'', JStr (lit ''user'')),
                          (lit ''message'', JStr (lit ''a@b.co''))]])])
     = None
   \<and> extract_customer_email u
      (JObj [(lit ''transcript'',
              JArr [JObj [(lit ''role'', JStr (lit ''user'')),
                          (lit ''message'', JStr (lit ''a@b.co''))]])])
     = Some (lit ''a@b.co'')
   \<and> pattern_search u (JStr (lit ''a@b.co'')) = Inr (Some (lit ''a@b.co''))
   \<and> validate_email (JStr (lit ''a@b.co'')) = Inr True
   \<and> extract_customer_email u
      (JObj [(lit ''transcript'', JArr (JObj [(lit ''message'', JNull)] # rest))])
     = None
   \<and> extract_customer_email u
      (JObj [(lit ''transcript'',
              JArr [JObj [(lit ''message'', JStr (lit ''x@y.c|om a@b.co''))]])])
     = None
   \<and> pattern_search u (JStr (lit ''x@y.c|om a@b.co'')) = Inr (Some (lit ''x@y.c|om''))
   \<and> validate_email (JStr (lit ''x@y.c|om'')) = Inr False"
proof (intro conjI)
  show "extract_customer_email u
      (JObj [(lit ''transcript'',
              JArr [JObj [(lit ''role'', JStr (lit ''agent'')), (lit ''message'', JNull)],
                    JObj [(lit ''role'', JStr (lit ''user'')),
                          (lit ''message'', JStr (lit ''a@b.co''))]])])
     = None"
    by (simp add: extract_defs eval_defs)
  show "extract_customer_email u
      (JObj [(lit ''transcript'',
              JArr [JObj [(lit ''role'', JStr (lit ''user'')),
                          (lit ''message'', JStr (lit ''a@b.co''))]])])
     = Some (lit ''a@b.co'')"
    by (simp add: extract_defs eval_defs)
  show "pattern_search u (JStr (lit ''a@b.co'')) = Inr (Some (lit ''a@b.co''))"
    by (simp add: extract_defs eval_defs)
  show "validate_email (JStr (lit ''a@b.co'')) = Inr True"
    by (simp add: eval_defs)
  show "extract_customer_email u
      (JObj [(lit ''transcript'', JArr (JObj [(lit ''message'', JNull)] # rest))])
     = None"
    by (simp add: extract_customer_email_def extract_customer_email_try_def pattern_search_def
        lit_def)
  show "extract_customer_email u
      (JObj [(lit ''transcript'',
              JArr [JObj [(lit ''message'', JStr (lit ''x@y.c|om a@b.co''))]])])
     = None"
    by (simp add: extract_defs eval_defs)
  show "pattern_search u (JStr (lit ''x@y.c|om a@b.co'')) = Inr (Some (lit ''x@y.c|om''))"
    by (simp add: extract_defs eval_defs)
  show "validate_email (JStr (lit ''x@y.c|om'')) = Inr False"
    by (simp add: eval_defs)
qed

section \<open>Malformed conversation data\<close>

lemma validate_email_TypeError:
  "truthy v \<Longrightarrow> (\<forall>s. v \<noteq> JStr s) \<Longrightarrow> validate_email v = Inl (Exn TypeError [])"
  by (cases v) (auto simp: validate_email_def)

text \<open>
  C9. An exception raised anywhere in the \<open>try\<close> block ends in \<open>None\<close>. In
  particular \<open>None\<close> is the result for conversation data that is not a dict, client
  data that is not a dict, an email field that is truthy and not a str, a
  transcript that is not iterable, and a transcript whose first entry is not a dict
  or has a message that is not a str (the email field not being a valid address).
\<close>

theorem extract_customer_email_never_raises:
  "(extract_customer_email_try u d = Inl x \<longrightarrow> extract_customer_email u d = None)
   \<and> ((\<forall>kvs. d \<noteq> JObj kvs) \<longrightarrow> extract_customer_email u d = None)
   \<and> (dict_get d (lit ''conversation_initiation_client_data'') (JObj []) = Inr cd
        \<and> (\<forall>kvs. cd \<noteq> JObj kvs) \<longrightarrow> extract_customer_email u d = None)
   \<and> (dict_get d (lit ''conversation_initiation_client_data'') (JObj []) = Inr cd
        \<and> dict_get cd (lit ''email'') JNull = Inr email
        \<and> truthy email \<and> (\<forall>s. email \<noteq> JStr s) \<longrightarrow> extract_customer_email u d = None)
   \<and> (dict_get d (lit ''conversation_initiation_client_data'') (JObj []) = Inr cd
        \<and> dict_get cd (lit ''email'') JNull = Inr email
        \<and> (\<not> truthy email \<or> validate_email email = Inr False)
        \<and> dict_get d (lit ''transcript'') (JArr []) = Inr t
        \<and> (py_iter t = Inl x
            \<or> (\<exists>entry rest. py_iter t = Inr (entry # rest)
                  \<and> (\<forall>kvs. entry \<noteq> JObj kvs))
            \<or> (\<exists>entry rest m. py_iter t = Inr (entry # rest)
                  \<and> dict_get entry (lit ''message'') (JStr []) = Inr m
                  \<and> (\<forall>s. m \<noteq> JStr s)))
        \<longrightarrow> extract_customer_email u d = None)"
proof (intro conjI impI)
  assume "extract_customer_email_try u d = Inl x"
  then show "extract_customer_email u d = None"
    by (simp add: extract_customer_email_def)
next
  assume "\<forall>kvs. d \<noteq> JObj kvs"
  then show "extract_customer_email u d = None"
    by (cases d) (simp_all add: extract_customer_email_def extract_customer_email_try_def)
next
  assume "dict_get d (lit ''conversation_initiation_client_data'') (JObj []) = Inr cd
        \<and> (\<forall>kvs. cd \<noteq> JObj kvs)"
  then show "extract_customer_email u d = None"
    by (cases cd) (simp_all add: extract_customer_email_def extract_customer_email_try_def)
next
  assume "dict_get d (lit ''conversation_initiation_client_data'') (JObj []) = Inr cd
        \<and> dict_get cd (lit ''email'') JNull = Inr email
        \<and> truthy email \<and> (\<forall>s. email \<noteq> JStr s)"
  then show "extract_customer_email u d = None"
    by (simp add: extract_customer_email_def extract_customer_email_try_def
        validate_email_TypeError)
next
  assume a: "dict_get d (lit ''conversation_initiation_client_data'') (JObj []) = Inr cd
        \<and> dict_get cd (lit ''email'') JNull = Inr email
        \<and> (\<not> truthy email \<or> validate_email email = Inr False)
        \<and> dict_get d (lit ''transcript'') (JArr []) = Inr t
        \<and> (py_iter t = Inl x
            \<or> (\<exists>entry rest. py_iter t = Inr (entry # rest)
                  \<and> (\<forall>kvs. entry \<noteq> JObj kvs))
            \<or> (\<exists>entry rest m. py_iter t = Inr (entry # rest)
                  \<and> dict_get entry (lit ''message'') (JStr []) = Inr m
                  \<and> (\<forall>s. m \<noteq> JStr s)))"
  then have v: "(if truthy email then validate_email email else Inr False) = Inr False"
    by auto
  have "\<exists>y. (case py_iter t of Inl e \<Rightarrow> Inl e | Inr entries \<Rightarrow> scan_transcript u entries) = Inl y"
  proof -
    from a consider "py_iter t = Inl x"
      | entry rest where "py_iter t = Inr (entry # rest)" "\<forall>kvs. entry \<noteq> JObj kvs"
      | entry rest m where "py_iter t = Inr (entry # rest)"
          "dict_get entry (lit ''message'') (JStr []) = Inr m" "\<forall>s. m \<noteq> JStr s"
      by blast
    then show ?thesis
    proof cases
      case 1
      then show ?thesis by simp
    next
      case 2
      then show ?thesis by (cases entry) simp_all
    next
      case 3
      then show ?thesis by (cases m) (simp_all add: pattern_search_def)
    qed
  qed
  with a v show "extract_customer_email u d = None"
    by (auto simp: extract_customer_email_def extract_customer_email_try_def)
qed


theorem extract_customer_email_never_raises_witness:
  "extract_customer_email (\<lambda>c. False) (JArr []) = None
   \<and> extract_customer_email_try (\<lambda>c. False)
        (JObj [(lit ''transcript'',
                JArr [JObj [(lit ''message'', JNull)],
                      JObj [(lit ''message'', JStr (lit ''a@b.co''))]])])
       = Inl (Exn TypeError [])
   \<and> extract_customer_email (\<lambda>c. False)
        (JObj [(lit ''transcript'',
                JArr [JObj [(lit ''message'', JNull)],
                      JObj [(lit ''message'', JStr (lit ''a@b.co''))]])])
       = None"
proof (intro conjI)
  show "extract_customer_email (\<lambda>c. False) (JArr []) = None"
    using extract_customer_email_never_raises [where d = "JArr []" and u = "\<lambda>c. False"]
    by simp
next
  let ?d = "JObj [(lit ''transcript'',
                JArr [JObj [(lit ''message'', JNull)],
                      JObj [(lit ''message'', JStr (lit ''a@b.co''))]])]"
  show t: "extract_customer_email_try (\<lambda>c. False) ?d = Inl (Exn TypeError [])"
    by (simp add: extract_customer_email_try_def pattern_search_def lit_def)
  show "extract_customer_email (\<lambda>c. False) ?d = None"
    using extract_customer_email_never_raises
      [where d = ?d and u = "\<lambda>c. False" and x = "Exn TypeError []"] t
    by simp
qed

section \<open>The retry decorators\<close>

lemma retrying_returns:
  "fst (f w) = Inr v \<Longrightarrow> retrying (Suc n) retry_on secs f w = f w"
  by (cases "f w") auto

lemma send_to_gemini_fn_returns: "\<exists>r. fst (send_to_gemini_fn env transcript w) = Inr r"
  unfolding send_to_gemini_fn_def
  by (cases "send_to_gemini_try env transcript w") (auto split: sum.splits)

lemma send_to_gemini_eq: "send_to_gemini env transcript w = send_to_gemini_fn env transcript w"
proof -
  obtain r where "fst (send_to_gemini_fn env transcript w) = Inr r"
    using send_to_gemini_fn_returns by blast
  then show ?thesis
    unfolding send_to_gemini_def numeral_3_eq_3 by (rule retrying_returns)
qed

lemma send_to_gemini_try_world:
  "snd (send_to_gemini_try env transcript w) = w
   \<or> snd (send_to_gemini_try env transcript w) = w\<lparr>gemini_calls := gemini_calls w + 1\<rparr>"
  unfolding send_to_gemini_try_def
  by (auto simp: Let_def split: sum.splits)

lemma send_to_gemini_world:
  "snd (send_to_gemini env transcript w) = w
   \<or> snd (send_to_gemini env transcript w) = w\<lparr>gemini_calls := gemini_calls w + 1\<rparr>"
  using send_to_gemini_try_world [of env transcript w]
  unfolding send_to_gemini_eq send_to_gemini_fn_def
  by (cases "send_to_gemini_try env transcript w") (auto split: sum.splits)

text \<open>
  C2. The provider fails on the first call and would answer on the second:
  \<open>send_to_gemini\<close> returns \<open>None\<close> after that one call, without sleeping and without
  a second attempt. In general it never sleeps and calls the provider at most once.
\<close>

theorem send_to_gemini_no_retry:
  "send_to_gemini
      (quiet_env\<lparr>generate_content :=
         (\<lambda>k prompt. if k = 0 then Inl (Exn ConnectionError (lit ''reset''))
                      else Inr (lit ''Email: None'' @ 10 # lit ''Summary: ok''))\<rparr>)
      (JArr [JObj [(lit ''message'', JStr (lit ''hello''))]]) world0
     = (Inr None, world0\<lparr>gemini_calls := 1\<rparr>)
   \<and> send_to_gemini_fn
      (quiet_env\<lparr>generate_content :=
         (\<lambda>k prompt. if k = 0 then Inl (Exn ConnectionError (lit ''reset''))
                      else Inr (lit ''Email: None'' @ 10 # lit ''Summary: ok''))\<rparr>)
      (JArr [JObj [(lit ''message'', JStr (lit ''hello''))]]) (world0\<lparr>gemini_calls := 1\<rparr>)
     = (Inr (Some (lit ''Email: None'' @ 10 # lit ''Summary: ok'')), world0\<lparr>gemini_calls := 2\<rparr>)
   \<and> slept (snd (send_to_gemini env transcript w)) = slept w
   \<and> gemini_calls (snd (send_to_gemini env transcript w)) \<le> gemini_calls w + 1"
proof (intro conjI)
  show "send_to_gemini
      (quiet_env\<lparr>generate_content :=
         (\<lambda>k prompt. if k = 0 then Inl (Exn ConnectionError (lit ''reset''))
                      else Inr (lit ''Email: None'' @ 10 # lit ''Summary: ok''))\<rparr>)
      (JArr [JObj [(lit ''message'', JStr (lit ''hello''))]]) world0
     = (Inr None, world0\<lparr>gemini_calls := 1\<rparr>)"
    unfolding send_to_gemini_eq
    by (simp add: send_to_gemini_fn_def send_to_gemini_try_def transcript_line_def
        quiet_env_def world0_def lit_def)
  show "send_to_gemini_fn
      (quiet_env\<lparr>generate_content :=
         (\<lambda>k prompt. if k = 0 then Inl (Exn ConnectionError (lit ''reset''))
                      else Inr (lit ''Email: None'' @ 10 # lit ''Summary: ok''))\<rparr>)
      (JArr [JObj [(lit ''message'', JStr (lit ''hello''))]]) (world0\<lparr>gemini_calls := 1\<rparr>)
     = (Inr (Some (lit ''Email: None'' @ 10 # lit ''Summary: ok'')), world0\<lparr>gemini_calls := 2\<rparr>)"
    by (simp add: send_to_gemini_fn_def send_to_gemini_try_def transcript_line_def
        quiet_env_def world0_def eval_defs)
  show "slept (snd (send_to_gemini env transcript w)) = slept w"
    using send_to_gemini_world [of env transcript w] by auto
  show "gemini_calls (snd (send_to_gemini env transcript w)) \<le> gemini_calls w + 1"
    using send_to_gemini_world [of env transcript w] by auto
qed


lemma send_email_fn_returns:
  "\<exists>r. fst (send_email_fn env cfg to_email summary cid w) = Inr r"
  unfolding send_email_fn_def
  by (cases "send_email_try env cfg to_email summary cid w") auto

lemma send_email_eq:
  "send_email env cfg to_email summary cid w = send_email_fn env cfg to_email summary cid w"
proof -
  obtain r where "fst (send_email_fn env cfg to_email summary cid w) = Inr r"
    using send_email_fn_returns by blast
  then show ?thesis
    unfolding send_email_def numeral_3_eq_3 by (rule retrying_returns)
qed

lemma smtp_steps_world:
  "snd (smtp_steps sc m w) = w \<or> snd (smtp_steps sc m w) = w\<lparr>outbox := outbox w @ [m]\<rparr>"
  by (auto simp: smtp_steps_def split: option.splits)

lemma smtp_steps_fields:
  "slept (snd (smtp_steps sc m v)) = slept v"
  "log_file (snd (smtp_steps sc m v)) = log_file v"
  "gemini_calls (snd (smtp_steps sc m v)) = gemini_calls v"
  "list_calls (snd (smtp_steps sc m v)) = list_calls v"
  "detail_calls (snd (smtp_steps sc m v)) = detail_calls v"
  "smtp_quits (snd (smtp_steps sc m v)) = smtp_quits v"
  "smtp_connects (snd (smtp_steps sc m v)) = smtp_connects v"
  "smtp_open (snd (smtp_steps sc m v)) = smtp_open v"
  using smtp_steps_world [of sc m v] by auto

text \<open>What the \<open>try\<close> block leaves behind: no connection, or one more than before.\<close>

lemma send_email_try_world:
  assumes "send_email_try env cfg to_email summary cid w = (r, server, w1)"
  shows "slept w1 = slept w \<and> log_file w1 = log_file w \<and> gemini_calls w1 = gemini_calls w
    \<and> list_calls w1 = list_calls w \<and> detail_calls w1 = detail_calls w
    \<and> smtp_quits w1 = smtp_quits w \<and> smtp_connects w1 \<le> smtp_connects w + 1
    \<and> smtp_open w1 = smtp_open w + (case server of None \<Rightarrow> 0 | Some sc \<Rightarrow> 1)"
  using assms unfolding send_email_try_def Let_def
  by (auto split: if_splits sum.splits option.splits prod.splits
      simp: smtp_steps_fields dest!: arg_cong [where f = snd])

lemma send_email_world:
  assumes "send_email env cfg to_email summary cid w = (r, w2)"
  shows "slept w2 = slept w \<and> log_file w2 = log_file w \<and> gemini_calls w2 = gemini_calls w
    \<and> list_calls w2 = list_calls w \<and> detail_calls w2 = detail_calls w
    \<and> smtp_connects w2 \<le> smtp_connects w + 1 \<and> smtp_open w2 = smtp_open w
    \<and> smtp_quits w2 = smtp_quits w
        + (case fst (snd (send_email_try env cfg to_email summary cid w)) of
             None \<Rightarrow> 0 | Some sc \<Rightarrow> 1)"
proof -
  obtain r1 server w1 where t: "send_email_try env cfg to_email summary cid w = (r1, server, w1)"
    by (cases "send_email_try env cfg to_email summary cid w") auto
  from send_email_try_world [OF t] assms t show ?thesis
    unfolding send_email_eq send_email_fn_def
    by (cases server) (auto simp: smtp_quit_def)
qed

text \<open>
  C4. The first connection is refused and the second would succeed: \<open>send_email\<close>
  returns the failure after that one attempt, without sleeping and without
  connecting again. In general it never sleeps and connects at most once.
\<close>

theorem send_email_no_retry:
  "send_email
      (quiet_env\<lparr>smtp_session :=
         (\<lambda>k. if k = 0 then smtp_ok\<lparr>on_connect := Some (Exn ConnectionError (lit ''refused''))\<rparr>
               else smtp_ok)\<rparr>)
      config0 recipient_address (lit ''Summary: ok'') (lit ''c1'') world0
     = (Inr (False, lit ''refused''), world0\<lparr>smtp_connects := 1\<rparr>)
   \<and> fst (send_email_fn
      (quiet_env\<lparr>smtp_session :=
         (\<lambda>k. if k = 0 then smtp_ok\<lparr>on_connect := Some (Exn ConnectionError (lit ''refused''))\<rparr>
               else smtp_ok)\<rparr>)
      config0 recipient_address (lit ''Summary: ok'') (lit ''c1'') (world0\<lparr>smtp_connects := 1\<rparr>))
     = Inr (True, lit ''Success'')
   \<and> slept (snd (send_email env cfg to_email summary cid w)) = slept w
   \<and> smtp_connects (snd (send_email env cfg to_email summary cid w)) \<le> smtp_connects w + 1"
proof (intro conjI)
  show "send_email
      (quiet_env\<lparr>smtp_session :=
         (\<lambda>k. if k = 0 then smtp_ok\<lparr>on_connect := Some (Exn ConnectionError (lit ''refused''))\<rparr>
               else smtp_ok)\<rparr>)
      config0 recipient_address (lit ''Summary: ok'') (lit ''c1'') world0
     = (Inr (False, lit ''refused''), world0\<lparr>smtp_connects := 1\<rparr>)"
    unfolding send_email_eq
    by (simp add: send_email_fn_def send_email_try_def send_email_except_def is_set_def
        quiet_env_def world0_def config0_def smtp_ok_def recipient_address_def eval_defs)
  show "fst (send_email_fn
      (quiet_env\<lparr>smtp_session :=
         (\<lambda>k. if k = 0 then smtp_ok\<lparr>on_connect := Some (Exn ConnectionError (lit ''refused''))\<rparr>
               else smtp_ok)\<rparr>)
      config0 recipient_address (lit ''Summary: ok'') (lit ''c1'') (world0\<lparr>smtp_connects := 1\<rparr>))
     = Inr (True, lit ''Success'')"
    by (simp add: send_email_fn_def send_email_try_def send_email_except_def is_set_def
        smtp_steps_def quiet_env_def world0_def config0_def smtp_ok_def recipient_address_def
        eval_defs)
  obtain r w2 where s: "send_email env cfg to_email summary cid w = (r, w2)"
    by (cases "send_email env cfg to_email summary cid w") auto
  from send_email_world [OF s] s
  show "slept (snd (send_email env cfg to_email summary cid w)) = slept w"
    and "smtp_connects (snd (send_email env cfg to_email summary cid w)) \<le> smtp_connects w + 1"
    by simp_all
qed



lemma send_to_gemini_failure:
  "send_to_gemini_try env transcript w = (Inl e, w') \<Longrightarrow>
     send_to_gemini env transcript w = (Inr None, w')"
  unfolding send_to_gemini_eq
  by (simp add: send_to_gemini_fn_def)

text \<open>
  \<open>send_email\<close> fails fast, without a connection, when a credential is missing or
  the target address does not validate.
\<close>

lemma send_email_missing_credentials:
  "\<not> is_set (SMTP_EMAIL cfg) \<or> \<not> is_set (SMTP_APP_PASSWORD cfg) \<Longrightarrow>
     send_email env cfg to_email summary cid w
       = (Inr (False, lit ''Missing SMTP credentials''), w)"
  unfolding send_email_eq
  by (auto simp: send_email_fn_def send_email_try_def)

lemma send_email_invalid_address:
  "is_set (SMTP_EMAIL cfg) \<Longrightarrow> is_set (SMTP_APP_PASSWORD cfg) \<Longrightarrow>
   validate_email (JStr to_email) = Inr False \<Longrightarrow>
     send_email env cfg to_email summary cid w
       = (Inr (False, lit ''Invalid email address''), w)"
  unfolding send_email_eq
  by (simp add: send_email_fn_def send_email_try_def)

lemma smtp_steps_fst: "fst (smtp_steps sc m v) = fst (smtp_steps sc m' v')"
  by (simp add: smtp_steps_def split: option.splits)

text \<open>
  C5. Whatever the session answers, \<open>send_email\<close> returns with as many connections
  open as before: \<open>quit\<close> is called exactly when the constructor had opened one
  (credentials set, target valid, connect succeeded), on success and on every
  failure alike. A failure of the session returns \<open>False\<close> with the detail
  \<open>Authentication error\<close> for an \<open>SMTPAuthenticationError\<close> and \<open>str(e)\<close> for any
  other exception; a session without failure returns \<open>(True, Success)\<close>.
\<close>

theorem send_email_releases_connection:
  "smtp_open (snd (send_email env cfg to_email summary cid w)) = smtp_open w
   \<and> smtp_quits (snd (send_email env cfg to_email summary cid w))
       = smtp_quits w
         + (if is_set (SMTP_EMAIL cfg) \<and> is_set (SMTP_APP_PASSWORD cfg)
               \<and> validate_email (JStr to_email) = Inr True
               \<and> on_connect (smtp_session env (smtp_connects w)) = None
            then 1 else 0)
   \<and> (is_set (SMTP_EMAIL cfg) \<and> is_set (SMTP_APP_PASSWORD cfg)
        \<and> validate_email (JStr to_email) = Inr True \<longrightarrow>
        (on_connect (smtp_session env (smtp_connects w)) = Some e
           \<longrightarrow> fst (send_email env cfg to_email summary cid w) = Inr (send_email_except e))
        \<and> (on_connect (smtp_session env (smtp_connects w)) = None
             \<and> fst (smtp_steps (smtp_session env (smtp_connects w)) m v) = Inl e
           \<longrightarrow> fst (send_email env cfg to_email summary cid w) = Inr (send_email_except e))
        \<and> (on_connect (smtp_session env (smtp_connects w)) = None
             \<and> fst (smtp_steps (smtp_session env (smtp_connects w)) m v) = Inr ()
           \<longrightarrow> fst (send_email env cfg to_email summary cid w) = Inr (True, lit ''Success'')))
   \<and> (exn_cls e = SMTPAuthenticationError
        \<longrightarrow> send_email_except e = (False, lit ''Authentication error''))
   \<and> (exn_cls e \<noteq> SMTPAuthenticationError \<longrightarrow> send_email_except e = (False, exn_str e))"
proof -
  let ?sc = "smtp_session env (smtp_connects w)"
  let ?m = "compose cfg to_email summary cid"
  let ?v = "w\<lparr>smtp_connects := smtp_connects w + 1, smtp_open := smtp_open w + 1\<rparr>"
  have steps: "fst (smtp_steps ?sc m v) = fst (smtp_steps ?sc ?m ?v)"
    by (rule smtp_steps_fst)
  obtain r w2 where s: "send_email env cfg to_email summary cid w = (r, w2)"
    by (cases "send_email env cfg to_email summary cid w") auto
  have server: "(fst (snd (send_email_try env cfg to_email summary cid w)) \<noteq> None)
      = (is_set (SMTP_EMAIL cfg) \<and> is_set (SMTP_APP_PASSWORD cfg)
               \<and> validate_email (JStr to_email) = Inr True
               \<and> on_connect ?sc = None)"
    unfolding send_email_try_def Let_def
    by (auto simp: validate_email_JStr split: option.splits sum.splits prod.splits)
  have 1: "smtp_open (snd (send_email env cfg to_email summary cid w)) = smtp_open w"
    using send_email_world [OF s] s by simp
  have 2: "smtp_quits (snd (send_email env cfg to_email summary cid w))
       = smtp_quits w
         + (if is_set (SMTP_EMAIL cfg) \<and> is_set (SMTP_APP_PASSWORD cfg)
               \<and> validate_email (JStr to_email) = Inr True
               \<and> on_connect ?sc = None
            then 1 else 0)"
    using send_email_world [OF s] s server
    by (cases "fst (snd (send_email_try env cfg to_email summary cid w))") auto
  have 3: "is_set (SMTP_EMAIL cfg) \<and> is_set (SMTP_APP_PASSWORD cfg)
        \<and> validate_email (JStr to_email) = Inr True \<longrightarrow>
        (on_connect ?sc = Some e
           \<longrightarrow> fst (send_email env cfg to_email summary cid w) = Inr (send_email_except e))
        \<and> (on_connect ?sc = None \<and> fst (smtp_steps ?sc m v) = Inl e
           \<longrightarrow> fst (send_email env cfg to_email summary cid w) = Inr (send_email_except e))
        \<and> (on_connect ?sc = None \<and> fst (smtp_steps ?sc m v) = Inr ()
           \<longrightarrow> fst (send_email env cfg to_email summary cid w) = Inr (True, lit ''Success''))"
    unfolding steps send_email_eq send_email_fn_def send_email_try_def Let_def
    by (auto split: prod.splits sum.splits)
  have 4: "exn_cls e = SMTPAuthenticationError
        \<longrightarrow> send_email_except e = (False, lit ''Authentication error'')"
    and 5: "exn_cls e \<noteq> SMTPAuthenticationError \<longrightarrow> send_email_except e = (False, exn_str e)"
    by (simp_all add: send_email_except_def)
  from 1 2 3 4 5 show ?thesis by (intro conjI)
qed


theorem send_email_releases_connection_witness:
  "fst (send_email
         (quiet_env\<lparr>smtp_session :=
            (\<lambda>k. smtp_ok\<lparr>on_login := Some (Exn SMTPAuthenticationError (lit ''535''))\<rparr>)\<rparr>)
         config0 recipient_address (lit ''ok'') (lit ''c1'') world0)
     = Inr (False, lit ''Authentication error'')
   \<and> smtp_open (snd (send_email
         (quiet_env\<lparr>smtp_session :=
            (\<lambda>k. smtp_ok\<lparr>on_login := Some (Exn SMTPAuthenticationError (lit ''535''))\<rparr>)\<rparr>)
         config0 recipient_address (lit ''ok'') (lit ''c1'') world0)) = 0
   \<and> smtp_quits (snd (send_email
         (quiet_env\<lparr>smtp_session :=
            (\<lambda>k. smtp_ok\<lparr>on_login := Some (Exn SMTPAuthenticationError (lit ''535''))\<rparr>)\<rparr>)
         config0 recipient_address (lit ''ok'') (lit ''c1'') world0)) = 1
   \<and> fst (send_email
         (quiet_env\<lparr>smtp_session :=
            (\<lambda>k. smtp_ok\<lparr>on_send := Some (Exn OtherError (lit ''timed out''))\<rparr>)\<rparr>)
         config0 recipient_address (lit ''ok'') (lit ''c1'') world0)
     = Inr (False, lit ''timed out'')
   \<and> smtp_quits (snd (send_email
         (quiet_env\<lparr>smtp_session :=
            (\<lambda>k. smtp_ok\<lparr>on_send := Some (Exn OtherError (lit ''timed out''))\<rparr>)\<rparr>)
         config0 recipient_address (lit ''ok'') (lit ''c1'') world0)) = 1
   \<and> fst (send_email quiet_env config0 recipient_address (lit ''ok'') (lit ''c1'') world0)
     = Inr (True, lit ''Success'')
   \<and> smtp_open (snd (send_email quiet_env config0 recipient_address (lit ''ok'') (lit ''c1'')
         world0)) = 0
   \<and> smtp_quits (snd (send_email quiet_env config0 recipient_address (lit ''ok'') (lit ''c1'')
         world0)) = 1"
proof -
  have v: "validate_email (JStr recipient_address) = Inr True"
    by (simp add: recipient_address_def eval_defs)
  have c: "is_set (SMTP_EMAIL config0)" "is_set (SMTP_APP_PASSWORD config0)"
    by (simp_all add: is_set_def config0_def lit_def)
  note a = send_email_releases_connection
      [where env = "quiet_env\<lparr>smtp_session :=
            (\<lambda>k. smtp_ok\<lparr>on_login := Some (Exn SMTPAuthenticationError (lit ''535''))\<rparr>)\<rparr>"
        and cfg = config0 and to_email = recipient_address and summary = "lit ''ok''"
        and cid = "lit ''c1''" and w = world0
        and e = "Exn SMTPAuthenticationError (lit ''535'')" and m = "compose config0 recipient_address (lit ''ok'') (lit ''c1'')"
        and v = world0]
  note b = send_email_releases_connection
      [where env = "quiet_env\<lparr>smtp_session :=
            (\<lambda>k. smtp_ok\<lparr>on_send := Some (Exn OtherError (lit ''timed out''))\<rparr>)\<rparr>"
        and cfg = config0 and to_email = recipient_address and summary = "lit ''ok''"
        and cid = "lit ''c1''" and w = world0
        and e = "Exn OtherError (lit ''timed out'')" and m = "compose config0 recipient_address (lit ''ok'') (lit ''c1'')"
        and v = world0]
  note d = send_email_releases_connection
      [where env = quiet_env
        and cfg = config0 and to_email = recipient_address and summary = "lit ''ok''"
        and cid = "lit ''c1''" and w = world0
        and e = "Exn OtherError []" and m = "compose config0 recipient_address (lit ''ok'') (lit ''c1'')"
        and v = world0]
  from a v c have
    "fst (send_email
         (quiet_env\<lparr>smtp_session :=
            (\<lambda>k. smtp_ok\<lparr>on_login := Some (Exn SMTPAuthenticationError (lit ''535''))\<rparr>)\<rparr>)
         config0 recipient_address (lit ''ok'') (lit ''c1'') world0)
     = Inr (False, lit ''Authentication error'')
   \<and> smtp_open (snd (send_email
         (quiet_env\<lparr>smtp_session :=
            (\<lambda>k. smtp_ok\<lparr>on_login := Some (Exn SMTPAuthenticationError (lit ''535''))\<rparr>)\<rparr>)
         config0 recipient_address (lit ''ok'') (lit ''c1'') world0)) = 0
   \<and> smtp_quits (snd (send_email
         (quiet_env\<lparr>smtp_session :=
            (\<lambda>k. smtp_ok\<lparr>on_login := Some (Exn SMTPAuthenticationError (lit ''535''))\<rparr>)\<rparr>)
         config0 recipient_address (lit ''ok'') (lit ''c1'') world0)) = 1"
    by (simp add: send_email_except_def smtp_steps_def quiet_env_def world0_def smtp_ok_def)
  moreover from b v c have
    "fst (send_email
         (quiet_env\<lparr>smtp_session :=
            (\<lambda>k. smtp_ok\<lparr>on_send := Some (Exn OtherError (lit ''timed out''))\<rparr>)\<rparr>)
         config0 recipient_address (lit ''ok'') (lit ''c1'') world0)
     = Inr (False, lit ''timed out'')
   \<and> smtp_quits (snd (send_email
         (quiet_env\<lparr>smtp_session :=
            (\<lambda>k. smtp_ok\<lparr>on_send := Some (Exn OtherError (lit ''timed out''))\<rparr>)\<rparr>)
         config0 recipient_address (lit ''ok'') (lit ''c1'') world0)) = 1"
    by (simp add: send_email_except_def smtp_steps_def quiet_env_def world0_def smtp_ok_def)
  moreover from d v c have
    "fst (send_email quiet_env config0 recipient_address (lit ''ok'') (lit ''c1'') world0)
     = Inr (True, lit ''Success'')
   \<and> smtp_open (snd (send_email quiet_env config0 recipient_address (lit ''ok'') (lit ''c1'')
         world0)) = 0
   \<and> smtp_quits (snd (send_email quiet_env config0 recipient_address (lit ''ok'') (lit ''c1'')
         world0)) = 1"
    by (simp add: send_email_except_def smtp_steps_def quiet_env_def world0_def smtp_ok_def)
  ultimately show ?thesis by (intro conjI) simp_all
qed


section \<open>The response post-processing inside the summary generator\<close>

lemma send_to_gemini_Some:
  "fst (send_to_gemini env transcript w) = Inr (Some r) \<Longrightarrow>
     \<exists>p text. generate_content env (gemini_calls w) p = Inr text \<and> text \<noteq> []
        \<and> r = lowercase_gemini_response text"
  unfolding send_to_gemini_eq send_to_gemini_fn_def send_to_gemini_try_def Let_def
  by (auto split: if_splits sum.splits prod.splits)

text \<open>
  C3, as the claim states it, fails: the model answers with an address that does not
  validate, and \<open>send_to_gemini\<close> returns the answer with that address still on its
  \<open>Email:\<close> line, neither lowercased nor removed.
\<close>

theorem invalid_email_not_nulled:
  "send_to_gemini
      (quiet_env\<lparr>generate_content :=
         (\<lambda>k prompt. Inr (lit ''Email: Not-An-Email'' @ 10 # lit ''Summary: ok''))\<rparr>)
      (JArr [JObj [(lit ''message'', JStr (lit ''hello''))]]) world0
     = (Inr (Some (lit ''Email: Not-An-Email'' @ 10 # lit ''Summary: ok'')),
        world0\<lparr>gemini_calls := 1\<rparr>)
   \<and> validate_email (JStr (lit ''Not-An-Email'')) = Inr False"
proof
  show "send_to_gemini
      (quiet_env\<lparr>generate_content :=
         (\<lambda>k prompt. Inr (lit ''Email: Not-An-Email'' @ 10 # lit ''Summary: ok''))\<rparr>)
      (JArr [JObj [(lit ''message'', JStr (lit ''hello''))]]) world0
     = (Inr (Some (lit ''Email: Not-An-Email'' @ 10 # lit ''Summary: ok'')),
        world0\<lparr>gemini_calls := 1\<rparr>)"
    unfolding send_to_gemini_eq
    by (simp add: send_to_gemini_fn_def send_to_gemini_try_def transcript_line_def
        quiet_env_def world0_def eval_defs)
  show "validate_email (JStr (lit ''Not-An-Email'')) = Inr False"
    by (simp add: eval_defs)
qed

text \<open>
  C3, amended. What \<open>send_to_gemini\<close> returns is the model's text after
  \<open>lowercase_gemini_response\<close>, which keeps the lines and changes a line only when it
  starts with \<open>Email:\<close> and the address on it validates: that line becomes \<open>Email:\<close>,
  a space and the lowercased address. A line whose address does not validate, and
  every line that does not start with \<open>Email:\<close> (the Summary line), is left as it is.
\<close>

theorem gemini_postprocessing:
  "(fst (send_to_gemini env transcript w) = Inr (Some r) \<longrightarrow>
      (\<exists>p text. generate_content env (gemini_calls w) p = Inr text \<and> text \<noteq> []
          \<and> r = lowercase_gemini_response text))
   \<and> length (split 10 (lowercase_gemini_response raw)) = length (split 10 raw)
   \<and> (\<forall>i < length (split 10 raw).
        (startswith (split 10 raw ! i) (lit ''Email:'')
           \<and> validate_email (JStr (strip (drop 6 (split 10 raw ! i)))) = Inr True
         \<longrightarrow> split 10 (lowercase_gemini_response raw) ! i
              = lit ''Email: '' @ lower (strip (drop 6 (split 10 raw ! i))))
        \<and> (startswith (split 10 raw ! i) (lit ''Email:'')
           \<and> validate_email (JStr (strip (drop 6 (split 10 raw ! i)))) = Inr False
         \<longrightarrow> split 10 (lowercase_gemini_response raw) ! i = split 10 raw ! i)
        \<and> (\<not> startswith (split 10 raw ! i) (lit ''Email:'')
         \<longrightarrow> split 10 (lowercase_gemini_response raw) ! i = split 10 raw ! i))"
proof (intro conjI allI impI)
  assume "fst (send_to_gemini env transcript w) = Inr (Some r)"
  then show "\<exists>p text. generate_content env (gemini_calls w) p = Inr text \<and> text \<noteq> []
          \<and> r = lowercase_gemini_response text"
    by (rule send_to_gemini_Some)
next
  show "length (split 10 (lowercase_gemini_response raw)) = length (split 10 raw)"
    by (simp add: lines_after)
next
  fix i
  assume "i < length (split 10 raw)"
    and "startswith (split 10 raw ! i) (lit ''Email:'')
         \<and> validate_email (JStr (strip (drop 6 (split 10 raw ! i)))) = Inr True"
  then show "split 10 (lowercase_gemini_response raw) ! i
      = lit ''Email: '' @ lower (strip (drop 6 (split 10 raw ! i)))"
    by (simp add: lines_after line_out_def validate_email_JStr)
next
  fix i
  assume "i < length (split 10 raw)"
    and "startswith (split 10 raw ! i) (lit ''Email:'')
         \<and> validate_email (JStr (strip (drop 6 (split 10 raw ! i)))) = Inr False"
  then show "split 10 (lowercase_gemini_response raw) ! i = split 10 raw ! i"
    by (simp add: lines_after line_out_def validate_email_JStr)
next
  fix i
  assume "i < length (split 10 raw)" and "\<not> startswith (split 10 raw ! i) (lit ''Email:'')"
  then show "split 10 (lowercase_gemini_response raw) ! i = split 10 raw ! i"
    by (simp add: lines_after line_out_other)
qed

theorem gemini_postprocessing_witness:
  "fst (send_to_gemini
      (quiet_env\<lparr>generate_content :=
         (\<lambda>k prompt. Inr (lit ''Email: A@B.co'' @ 10 # lit ''Summary: ok''))\<rparr>)
      (JArr [JObj [(lit ''message'', JStr (lit ''hello''))]]) world0)
     = Inr (Some (lit ''Email: a@b.co'' @ 10 # lit ''Summary: ok''))
   \<and> split 10 (lowercase_gemini_response (lit ''Email: A@B.co'' @ 10 # lit ''Summary: ok''))
     = [lit ''Email: a@b.co'', lit ''Summary: ok'']
   \<and> split 10 (lowercase_gemini_response (lit ''Email: A@B'' @ 10 # lit ''Summary: ok''))
     = [lit ''Email: A@B'', lit ''Summary: ok'']"
proof (intro conjI)
  let ?env = "quiet_env\<lparr>generate_content :=
         (\<lambda>k prompt. Inr (lit ''Email: A@B.co'' @ 10 # lit ''Summary: ok''))\<rparr>"
  let ?t = "JArr [JObj [(lit ''message'', JStr (lit ''hello''))]]"
  have "\<exists>r. fst (send_to_gemini ?env ?t world0) = Inr (Some r)"
    unfolding send_to_gemini_eq
    by (simp add: send_to_gemini_fn_def send_to_gemini_try_def transcript_line_def
        quiet_env_def world0_def lit_def)
  then obtain r where r: "fst (send_to_gemini ?env ?t world0) = Inr (Some r)" ..
  have e: "lowercase_gemini_response (lit ''Email: A@B.co'' @ 10 # lit ''Summary: ok'')
      = lit ''Email: a@b.co'' @ 10 # lit ''Summary: ok''"
    by (simp add: eval_defs)
  from gemini_postprocessing [of ?env ?t world0 r] r
  have "r = lit ''Email: a@b.co'' @ 10 # lit ''Summary: ok''"
    by (auto simp: quiet_env_def e)
  with r show "fst (send_to_gemini ?env ?t world0)
      = Inr (Some (lit ''Email: a@b.co'' @ 10 # lit ''Summary: ok''))"
    by simp
next
  let ?text = "lit ''Email: A@B.co'' @ 10 # lit ''Summary: ok''"
  have s: "split 10 ?text = [lit ''Email: A@B.co'', lit ''Summary: ok'']"
    by (simp add: lit_def)
  have v: "validate_email (JStr (strip (drop 6 (lit ''Email: A@B.co'')))) = Inr True"
    by (simp add: eval_defs)
  have l: "lit ''Email: '' @ lower (strip (drop 6 (lit ''Email: A@B.co''))) = lit ''Email: a@b.co''"
    by (simp add: eval_defs)
  have sw: "startswith (lit ''Email: A@B.co'') (lit ''Email:'')"
    "\<not> startswith (lit ''Summary: ok'') (lit ''Email:'')"
    by (simp_all add: startswith_def lit_def)
  from gemini_postprocessing [where raw = ?text] s v l sw
  have "length (split 10 (lowercase_gemini_response ?text)) = 2
      \<and> split 10 (lowercase_gemini_response ?text) ! 0 = lit ''Email: a@b.co''
      \<and> split 10 (lowercase_gemini_response ?text) ! 1 = lit ''Summary: ok''"
    by (simp add: all_less_two)
  then show "split 10 (lowercase_gemini_response ?text) = [lit ''Email: a@b.co'', lit ''Summary: ok'']"
    by (cases "split 10 (lowercase_gemini_response ?text)"; cases "tl (split 10 (lowercase_gemini_response ?text))")
      auto
next
  let ?text = "lit ''Email: A@B'' @ 10 # lit ''Summary: ok''"
  have s: "split 10 ?text = [lit ''Email: A@B'', lit ''Summary: ok'']"
    by (simp add: lit_def)
  have v: "validate_email (JStr (strip (drop 6 (lit ''Email: A@B'')))) = Inr False"
    by (simp add: eval_defs)
  have sw: "startswith (lit ''Email: A@B'') (lit ''Email:'')"
    "\<not> startswith (lit ''Summary: ok'') (lit ''Email:'')"
    by (simp_all add: startswith_def lit_def)
  from gemini_postprocessing [where raw = ?text] s v sw
  have "length (split 10 (lowercase_gemini_response ?text)) = 2
      \<and> split 10 (lowercase_gemini_response ?text) ! 0 = lit ''Email: A@B''
      \<and> split 10 (lowercase_gemini_response ?text) ! 1 = lit ''Summary: ok''"
    by (simp add: all_less_two)
  then show "split 10 (lowercase_gemini_response ?text) = [lit ''Email: A@B'', lit ''Summary: ok'']"
    by (cases "split 10 (lowercase_gemini_response ?text)"; cases "tl (split 10 (lowercase_gemini_response ?text))")
      auto
qed

section \<open>The monitor loop\<close>

























section \<open>No id is processed twice while the listing moves forward\<close>




























section \<open>What is mailed and what is logged\<close>


















end
